theory Spec2Isabelle
  imports Complex_Main "HOL-Library.Word" "HOL-Library.Signed_Division" "HOL-Library.Log_Nat"
begin

unbundle bit_operations_syntax

section \<open>Data model of instantwm.c\<close>

text \<open>
  Clients and monitors live in two stores, addressed by natural numbers that stand
  for the C pointers (\<open>Client *\<close>, \<open>Monitor *\<close>); \<open>None\<close> is \<open>NULL\<close>.
  The intrusive chains \<open>Monitor.clients / Client.next\<close>,
  \<open>Monitor.stack / Client.snext\<close> and \<open>mons / Monitor.next\<close> are kept as the
  list of addresses reached from the head, in chain order.
  C \<open>int\<close> values are unbounded integers (signed overflow is undefined in C and no
  function below relies on it), tag bitsets (\<open>unsigned int\<close>) are 32-bit words,
  \<open>int\<close> fields that the code only tests for truth are booleans.
  A \<open>float\<close> field carries the rational value of the float; every computation the
  code performs in floating point is a field of the record \<open>env\<close> below.
  Requests to the X server that leave the window manager's own data unchanged
  (drawing, grabs, \<open>XConfigureWindow\<close>, \<open>XSync\<close>, \<open>usleep\<close>) are left out.
\<close>

type_synonym cid = nat
type_synonym mid = nat
type_synonym tagmask = "32 word"

record client =
  mina :: rat
  maxa :: rat
  cx :: int
  cy :: int
  cw :: int
  ch :: int
  oldx :: int
  oldy :: int
  oldw :: int
  oldh :: int
  basew :: int
  baseh :: int
  incw :: int
  inch :: int
  maxw :: int
  maxh :: int
  minw :: int
  minh :: int
  bw :: int
  tags :: tagmask
  isfloating :: bool
  isurgent :: bool
  isfullscreen :: bool
  isfakefullscreen :: bool
  issticky :: bool
  mon :: mid
  win :: nat

text \<open>\<open>struct Pertag\<close>; the arrays are indexed by the tag index \<open>0 .. LENGTH(tags)\<close>.\<close>

record pertag =
  curtag :: nat
  prevtag :: nat
  nmasters :: "nat \<Rightarrow> int"
  mfacts :: "nat \<Rightarrow> rat"
  sellts :: "nat \<Rightarrow> nat"
  ltidxs :: "nat \<Rightarrow> nat \<Rightarrow> nat"
  showbars :: "nat \<Rightarrow> bool"

text \<open>
  \<open>struct Monitor\<close>. A \<open>const Layout *\<close> is the index of the entry in the
  \<open>layouts\<close> table of config.h; \<open>bar_y\<close> is the field \<open>by\<close>.
\<close>

record monitor =
  ltsymbol :: string
  mfact :: rat
  nmaster :: int
  num :: int
  bar_y :: int
  mx :: int
  my :: int
  mw :: int
  mh :: int
  wx :: int
  wy :: int
  ww :: int
  wh :: int
  seltags :: nat
  sellt :: nat
  tagset :: "nat \<Rightarrow> tagmask"
  showbar :: bool
  topbar :: bool
  clients :: "cid list"
  sel :: "cid option"
  stack :: "cid list"
  gesture :: int
  lt :: "nat \<Rightarrow> nat"
  ptag :: pertag

text \<open>
  The global variables, the two stores, and \<open>wmstate\<close>: the \<open>WM_STATE\<close> property
  that \<open>getstate\<close> reads from the X server for a window.
\<close>

record wm =
  heap_c :: "cid \<Rightarrow> client"
  heap_m :: "mid \<Rightarrow> monitor"
  mons :: "mid list"
  selmon :: mid
  bh :: int
  sw :: int
  sh :: int
  animated :: bool
  altcursor :: bool
  isdesktop :: bool
  wmstate :: "nat \<Rightarrow> int"

datatype arrange_fn = Tile | Monocle | Bstack | Bstackhoriz

text \<open>\<open>Layout\<close>: \<open>arrangefn = None\<close> is the null \<open>arrange\<close> pointer (floating).\<close>

record layout =
  symbol :: string
  arrangefn :: "arrange_fn option"

text \<open>
  What instantwm.c takes from outside: the constants of config.h, the function
  \<open>clientcount\<close> (declared nowhere in the file), and the floating-point unit:
  \<^item> \<open>fp_lt_div f a b\<close> is the value of \<open>f < (float)a / b\<close>;
  \<^item> \<open>fp_mul_half a f\<close> is \<open>a * f + 0.5\<close> converted to \<open>int\<close>;
  \<^item> \<open>fp_mul a f\<close> is \<open>a * f\<close> converted to an integer;
  \<^item> \<open>fp_ease a b t n\<close> is \<open>a + easeOutQuint((double)t / n) * (b - a)\<close>
    converted to \<open>int\<close>.
\<close>

record env =
  resizehints :: bool
  layouts :: "nat \<Rightarrow> layout"
  ntags :: nat
  cfg_mfact :: rat
  cfg_nmaster :: int
  cfg_showbar :: bool
  cfg_topbar :: bool
  clientcount :: "wm \<Rightarrow> int"
  fp_lt_div :: "rat \<Rightarrow> int \<Rightarrow> int \<Rightarrow> bool"
  fp_mul_half :: "int \<Rightarrow> rat \<Rightarrow> int"
  fp_mul :: "int \<Rightarrow> rat \<Rightarrow> int"
  fp_ease :: "int \<Rightarrow> int \<Rightarrow> int \<Rightarrow> int \<Rightarrow> int"

section \<open>Macros\<close>

definition IconicState :: int where
  "IconicState = 3"

definition ISVISIBLE :: "wm \<Rightarrow> cid \<Rightarrow> bool" where
  "ISVISIBLE st c =
     (let C = heap_c st c; M = heap_m st (mon C)
      in tags C AND tagset M (seltags M) \<noteq> 0 \<or> issticky C)"

definition HIDDEN :: "wm \<Rightarrow> cid \<Rightarrow> bool" where
  "HIDDEN st c = (wmstate st (win (heap_c st c)) = IconicState)"

definition WIDTH :: "client \<Rightarrow> int" where
  "WIDTH C = cw C + 2 * bw C"

definition HEIGHT :: "client \<Rightarrow> int" where
  "HEIGHT C = ch C + 2 * bw C"

definition TAGMASK :: "env \<Rightarrow> tagmask" where
  "TAGMASK E = push_bit (ntags E) 1 - 1"

text \<open>\<open>m->lt[m->sellt]->arrange\<close>.\<close>

definition cur_arrange :: "env \<Rightarrow> monitor \<Rightarrow> arrange_fn option" where
  "cur_arrange E M = arrangefn (layouts E (lt M (sellt M)))"

section \<open>applysizehints\<close>

text \<open>
  Lines 697 to 725: the hint resolution proper. C's \<open>%\<close> truncates towards zero
  (\<open>smod\<close>). The two assignments guarded by \<open>c->mina > 0 && c->maxa > 0\<close>
  (\<open>aspect_set\<close>) are computed in floating point.
\<close>

definition aspect_set :: "client \<Rightarrow> bool" where
  "aspect_set C = (mina C > 0 \<and> maxa C > 0)"

definition sizehints_body :: "env \<Rightarrow> client \<Rightarrow> int \<Rightarrow> int \<Rightarrow> int \<times> int" where
  "sizehints_body E C w0 h0 =
     (let baseismin = (basew C = minw C \<and> baseh C = minh C);
          w = (if \<not> baseismin then w0 - basew C else w0);
          h = (if \<not> baseismin then h0 - baseh C else h0);
          (w, h) = (if aspect_set C then
                      (if fp_lt_div E (maxa C) w h then (fp_mul_half E h (maxa C), h)
                       else if fp_lt_div E (mina C) h w then (w, fp_mul_half E w (mina C))
                       else (w, h))
                    else (w, h));
          w = (if baseismin then w - basew C else w);
          h = (if baseismin then h - baseh C else h);
          w = (if incw C \<noteq> 0 then w - w smod incw C else w);
          h = (if inch C \<noteq> 0 then h - h smod inch C else h);
          w = max (w + basew C) (minw C);
          h = max (h + baseh C) (minh C);
          w = (if maxw C \<noteq> 0 then min w (maxw C) else w);
          h = (if maxh C \<noteq> 0 then min h (maxh C) else h)
      in (w, h))"

text \<open>Lines 673 to 691: keeping the rectangle reachable.\<close>

definition clamp_pos :: "wm \<Rightarrow> client \<Rightarrow> bool \<Rightarrow> int \<Rightarrow> int \<Rightarrow> int \<Rightarrow> int \<Rightarrow> int \<times> int" where
  "clamp_pos st C interact x0 y0 w h =
     (let M = heap_m st (mon C) in
      if interact then
        (let x = (if x0 > sw st then sw st - WIDTH C else x0);
             y = (if y0 > sh st then sh st - HEIGHT C else y0);
             x = (if x + w + 2 * bw C < 0 then 0 else x);
             y = (if y + h + 2 * bw C < 0 then 0 else y)
         in (x, y))
      else
        (let x = (if x0 \<ge> wx M + ww M then wx M + ww M - WIDTH C else x0);
             y = (if y0 \<ge> wy M + wh M then wy M + wh M - HEIGHT C else y0);
             x = (if x + w + 2 * bw C \<le> wx M then wx M else x);
             y = (if y + h + 2 * bw C \<le> wy M then wy M else y)
         in (x, y)))"

text \<open>
  The guard of line 696: \<open>resizehints || c->isfloating || !c->mon->lt[c->mon->sellt]->arrange\<close>.
\<close>

definition hints_apply :: "env \<Rightarrow> wm \<Rightarrow> client \<Rightarrow> bool" where
  "hints_apply E st C =
     (resizehints E \<or> isfloating C \<or> cur_arrange E (heap_m st (mon C)) = None)"

text \<open>
  \<open>applysizehints(c, &x, &y, &w, &h, interact)\<close>: the result is the final
  \<open>(*x, *y, *w, *h)\<close> and the returned flag.
\<close>

definition applysizehints ::
  "env \<Rightarrow> wm \<Rightarrow> cid \<Rightarrow> int \<Rightarrow> int \<Rightarrow> int \<Rightarrow> int \<Rightarrow> bool \<Rightarrow> int \<times> int \<times> int \<times> int \<times> bool" where
  "applysizehints E st c x0 y0 w0 h0 interact =
     (let C = heap_c st c;
          w = max 1 w0;
          h = max 1 h0;
          (x, y) = clamp_pos st C interact x0 y0 w h;
          h = (if h < bh st then bh st else h);
          w = (if w < bh st then bh st else w);
          (w, h) = (if hints_apply E st C then sizehints_body E C w h else (w, h))
      in (x, y, w, h, x \<noteq> cx C \<or> y \<noteq> cy C \<or> w \<noteq> cw C \<or> h \<noteq> ch C))"

text \<open>The width and height entering line 696: at least 1, then at least \<open>bh\<close>.\<close>

definition floor_bh :: "wm \<Rightarrow> int \<Rightarrow> int" where
  "floor_bh st v = (if max 1 v < bh st then bh st else max 1 v)"

text \<open>The resolved width and height, for stating properties.\<close>

definition res_w :: "int \<times> int \<times> int \<times> int \<times> bool \<Rightarrow> int" where
  "res_w r = fst (snd (snd r))"

definition res_h :: "int \<times> int \<times> int \<times> int \<times> bool \<Rightarrow> int" where
  "res_h r = fst (snd (snd (snd r)))"

section \<open>Resizing a client\<close>

text \<open>
  \<open>nexttiled(c)\<close>: the chain starting at \<open>c\<close> is the list \<open>cs\<close>; the result is
  the rest of the chain from the first tiled client on (\<open>[]\<close> for \<open>NULL\<close>).
\<close>

definition nexttiled :: "wm \<Rightarrow> cid list \<Rightarrow> cid list" where
  "nexttiled st cs =
     dropWhile (\<lambda>c. isfloating (heap_c st c) \<or> \<not> ISVISIBLE st c \<or> HIDDEN st c) cs"

text \<open>
  The test of lines 2841 to 2844. \<open>nexttiled(c->mon->clients) == c && !nexttiled(c->next)\<close>
  says that \<open>c\<close> is the only tiled client of its monitor.
\<close>

definition borderless :: "env \<Rightarrow> wm \<Rightarrow> cid \<Rightarrow> bool" where
  "borderless E st c =
     (let C = heap_c st c; M = heap_m st (mon C)
      in (((case nexttiled st (clients M) of
              [] \<Rightarrow> False
            | c' # rest \<Rightarrow> c' = c \<and> nexttiled st rest = [])
           \<and> cur_arrange E M \<noteq> None)
          \<or> cur_arrange E M = Some Monocle)
         \<and> \<not> isfullscreen C \<and> \<not> isfloating C)"

definition resizeclient :: "env \<Rightarrow> wm \<Rightarrow> cid \<Rightarrow> int \<Rightarrow> int \<Rightarrow> int \<Rightarrow> int \<Rightarrow> wm" where
  "resizeclient E st c x y w h =
     (let C = heap_c st c;
          C1 = C\<lparr>oldx := cx C, cx := x, oldy := cy C, cy := y,
                 oldw := cw C, cw := w, oldh := ch C, ch := h\<rparr>;
          st1 = st\<lparr>heap_c := (heap_c st)(c := C1)\<rparr>
      in if borderless E st1 c
         then st1\<lparr>heap_c := (heap_c st1)(c := C1\<lparr>cw := w + bw C1 * 2, ch := h + bw C1 * 2\<rparr>)\<rparr>
         else st1)"

definition resize :: "env \<Rightarrow> wm \<Rightarrow> cid \<Rightarrow> int \<Rightarrow> int \<Rightarrow> int \<Rightarrow> int \<Rightarrow> bool \<Rightarrow> wm" where
  "resize E st c x y w h interact =
     (case applysizehints E st c x y w h interact of
        (x', y', w', h', changed) \<Rightarrow>
          if changed then resizeclient E st c x' y' w' h' else st)"

text \<open>
  \<open>animateclient\<close>. The function calls itself when the target position is the
  current one, and nothing bounds that recursion: \<open>None\<close> is the call that does not
  return. The frames of the \<open>while\<close> loop run for \<open>time = 1 .. frames - 1\<close>.
\<close>

definition anim_frames ::
  "env \<Rightarrow> cid \<Rightarrow> int \<Rightarrow> int \<Rightarrow> int \<Rightarrow> int \<Rightarrow> int \<Rightarrow> int \<Rightarrow> int \<Rightarrow> wm \<Rightarrow> wm" where
  "anim_frames E c ox oy x y width height frames st =
     fold (\<lambda>time s. resize E s c (fp_ease E ox x time frames) (fp_ease E oy y time frames)
                       width height True)
          [1 .. frames - 1] st"

text \<open>The tests of lines 519 and 520.\<close>

definition anim_far :: "wm \<Rightarrow> cid \<Rightarrow> int \<Rightarrow> int \<Rightarrow> int \<Rightarrow> int \<Rightarrow> bool" where
  "anim_far st c x y w h =
     (let C = heap_c st c
      in animated st \<and> (\<bar>cx C - x\<bar> > 10 \<or> \<bar>cy C - y\<bar> > 10 \<or>
                        \<bar>w - cw C\<bar> > 10 \<or> \<bar>h - ch C\<bar> > 10))"

definition anim_inplace :: "wm \<Rightarrow> cid \<Rightarrow> int \<Rightarrow> int \<Rightarrow> bool" where
  "anim_inplace st c x y =
     (let C = heap_c st c
      in x = cx C \<and> y = cy C \<and> cw C < mw (heap_m st (selmon st)) - 50)"

partial_function (option) animateclient ::
  "env \<Rightarrow> wm \<Rightarrow> cid \<Rightarrow> int \<Rightarrow> int \<Rightarrow> int \<Rightarrow> int \<Rightarrow> int \<Rightarrow> bool \<Rightarrow> wm option" where
  "animateclient E st c x y w h frames resetpos =
     (let C = heap_c st c;
          width = (if w \<noteq> 0 then w else cw C);
          height = (if h \<noteq> 0 then h else ch C);
          ox = cx C;
          oy = cy C
      in Option.bind
           (if anim_far st c x y w h
            then if anim_inplace st c x y
                 then animateclient E st c (cx C + (width - cw C)) (cy C + (height - ch C))
                        0 0 frames False
                 else Some (anim_frames E c ox oy x y width height frames st)
            else Some st)
           (\<lambda>st1. Some (if resetpos then resize E st1 c ox oy width height False
                         else resize E st1 c x y width height True)))"

section \<open>Layouts\<close>

text \<open>
  Arithmetic on \<open>unsigned int\<close>: \<open>u32 v\<close> is the value of \<open>v\<close> converted to
  \<open>unsigned int\<close>, \<open>s32 v\<close> the value of the unsigned \<open>v\<close> converted to \<open>int\<close>
  (two's complement). A division by zero does not return.
\<close>

definition u32 :: "int \<Rightarrow> int" where
  "u32 v = v mod 2 ^ 32"

definition s32 :: "int \<Rightarrow> int" where
  "s32 v = (if u32 v < 2 ^ 31 then u32 v else u32 v - 2 ^ 32)"

definition udiv :: "int \<Rightarrow> int \<Rightarrow> int option" where
  "udiv a b = (if u32 b = 0 then None else Some (u32 a div u32 b))"

text \<open>\<open>for (n = 0, c = nexttiled(m->clients); c; c = nexttiled(c->next), n++);\<close>\<close>

function count_tiled :: "wm \<Rightarrow> cid list \<Rightarrow> int \<Rightarrow> int" where
  "count_tiled st [] n = n"
| "count_tiled st (c # rest) n = count_tiled st (nexttiled st rest) (u32 (n + 1))"
  by pat_completeness auto
termination
  by (relation "measure (\<lambda>(st, cs, n). length cs)")
     (auto simp add: nexttiled_def intro: le_imp_less_Suc length_dropWhile_le)

text \<open>The loop of \<open>tile\<close>, lines 3633 to 3644; \<open>cs\<close> is the chain from \<open>c\<close>.\<close>

function tile_loop ::
  "env \<Rightarrow> mid \<Rightarrow> int \<Rightarrow> int \<Rightarrow> int \<Rightarrow> int \<Rightarrow> int \<Rightarrow> int \<Rightarrow> cid list \<Rightarrow> wm \<Rightarrow> wm option" where
  "tile_loop E m n mwd framecount i myo tyo [] st = Some st"
| "tile_loop E m n mwd framecount i myo tyo (c # rest) st =
     (if i < u32 (nmaster (heap_m st m)) then
      Option.bind (udiv (wh (heap_m st m) - myo) (min n (u32 (nmaster (heap_m st m))) - i))
        (\<lambda>h. Option.bind
           (animateclient E st c (wx (heap_m st m)) (s32 (wy (heap_m st m) + myo))
              (s32 (mwd - 2 * bw (heap_c st c))) (s32 (h - 2 * bw (heap_c st c)))
              framecount False)
           (\<lambda>st1. tile_loop E m n mwd framecount (u32 (i + 1))
              (if u32 (myo + HEIGHT (heap_c st1 c)) < u32 (wh (heap_m st1 m))
               then u32 (myo + HEIGHT (heap_c st1 c)) else myo)
              tyo (nexttiled st1 rest) st1))
    else
      Option.bind (udiv (wh (heap_m st m) - tyo) (n - i))
        (\<lambda>h. Option.bind
           (animateclient E st c (s32 (wx (heap_m st m) + mwd)) (s32 (wy (heap_m st m) + tyo))
              (s32 (ww (heap_m st m) - mwd - 2 * bw (heap_c st c)))
              (s32 (h - 2 * bw (heap_c st c))) framecount False)
           (\<lambda>st1. tile_loop E m n mwd framecount (u32 (i + 1)) myo
              (if u32 (tyo + HEIGHT (heap_c st1 c)) < u32 (wh (heap_m st1 m))
               then u32 (tyo + HEIGHT (heap_c st1 c)) else tyo)
              (nexttiled st1 rest) st1)))"
  by pat_completeness auto
termination
  by (relation "measure (\<lambda>(E, m, n, mwd, framecount, i, myo, tyo, cs, st). length cs)")
     (auto simp add: nexttiled_def intro: le_imp_less_Suc length_dropWhile_le)

definition tile :: "env \<Rightarrow> mid \<Rightarrow> wm \<Rightarrow> wm option" where
  "tile E m st =
     (let M = heap_m st m;
          framecount = (if animated st \<and> clientcount E st > 5 then 4 else 7);
          n = count_tiled st (nexttiled st (clients M)) 0
      in if n = 0 then Some st
         else
           let mwd = (if n > u32 (nmaster M)
                      then (if nmaster M \<noteq> 0 then u32 (fp_mul E (ww M) (mfact M)) else 0)
                      else u32 (ww M))
           in tile_loop E m n mwd framecount 0 0 0 (nexttiled st (clients M)) st)"

text \<open>Decimal digits, for \<open>snprintf(..., "[%d]", n)\<close>.\<close>

fun dec :: "nat \<Rightarrow> string" where
  "dec n = (if n < 10 then [char_of (48 + n)] else dec (n div 10) @ [char_of (48 + n mod 10)])"

declare dec.simps [simp del]

definition printf_d :: "int \<Rightarrow> string" where
  "printf_d v = (if v < 0 then CHR ''-'' # dec (nat (- v)) else dec (nat v))"

text \<open>\<open>for (c = m->clients; c; c = c->next) if (ISVISIBLE(c)) n++;\<close>\<close>

fun count_visible :: "wm \<Rightarrow> cid list \<Rightarrow> int \<Rightarrow> int" where
  "count_visible st [] n = n"
| "count_visible st (c # cs) n =
     count_visible st cs (if ISVISIBLE st c then u32 (n + 1) else n)"

function monocle_loop :: "env \<Rightarrow> mid \<Rightarrow> cid list \<Rightarrow> wm \<Rightarrow> wm option" where
  "monocle_loop E m [] st = Some st"
| "monocle_loop E m (c # rest) st =
     (Option.bind
      (animateclient E st c (wx (heap_m st m)) (wy (heap_m st m))
         (ww (heap_m st m) - 2 * bw (heap_c st c))
         (wh (heap_m st m) - 2 * bw (heap_c st c)) 10 False)
      (\<lambda>st1. monocle_loop E m (nexttiled st1 rest) st1))"
  by pat_completeness auto
termination
  by (relation "measure (\<lambda>(E, m, cs, st). length cs)")
     (auto simp add: nexttiled_def intro: le_imp_less_Suc length_dropWhile_le)

text \<open>
  \<open>monocle\<close>. \<open>snprintf\<close> writes at most 15 characters into \<open>ltsymbol[16]\<close>;
  \<open>%d\<close> prints the unsigned count as an \<open>int\<close>.
\<close>

definition monocle :: "env \<Rightarrow> mid \<Rightarrow> wm \<Rightarrow> wm option" where
  "monocle E m st =
     (let n = count_visible st (clients (heap_m st m)) 0;
          st1 = (if n > 0
                 then st\<lparr>heap_m := (heap_m st)
                        (m := (heap_m st m)\<lparr>ltsymbol := take 15 (''['' @ printf_d (s32 n) @ '']'')\<rparr>)\<rparr>
                 else st)
      in monocle_loop E m (nexttiled st1 (clients (heap_m st1 m))) st1)"

text \<open>
  The loop of \<open>bstack\<close>, lines 4649 to 4660. \<open>w\<close>, \<open>mh\<close>, \<open>mx\<close>, \<open>tx\<close>, \<open>ty\<close>,
  \<open>tw\<close> are \<open>int\<close>, \<open>i\<close> and \<open>n\<close> are unsigned: the division of line 4651 is
  unsigned.
\<close>

function bstack_loop ::
  "env \<Rightarrow> mid \<Rightarrow> int \<Rightarrow> int \<Rightarrow> int \<Rightarrow> int \<Rightarrow> int \<Rightarrow> int \<Rightarrow> int \<Rightarrow> cid list \<Rightarrow> wm \<Rightarrow> wm option" where
  "bstack_loop E m n mhd tw ty i mxo tx [] st = Some st"
| "bstack_loop E m n mhd tw ty i mxo tx (c # rest) st =
     (if i < u32 (nmaster (heap_m st m)) then
      Option.bind (udiv (ww (heap_m st m) - mxo) (min n (u32 (nmaster (heap_m st m))) - i))
        (\<lambda>w. Option.bind
           (animateclient E st c (wx (heap_m st m) + mxo) (wy (heap_m st m))
              (s32 w - 2 * bw (heap_c st c)) (mhd - 2 * bw (heap_c st c)) 10 False)
           (\<lambda>st1. bstack_loop E m n mhd tw ty (u32 (i + 1))
              (mxo + WIDTH (heap_c st1 c)) tx (nexttiled st1 rest) st1))
    else
      Option.bind
        (animateclient E st c tx ty (tw - 2 * bw (heap_c st c))
           (wh (heap_m st m) - mhd - 2 * bw (heap_c st c)) 10 False)
        (\<lambda>st1. bstack_loop E m n mhd tw ty (u32 (i + 1)) mxo
           (if tw \<noteq> ww (heap_m st1 m) then tx + WIDTH (heap_c st1 c) else tx)
           (nexttiled st1 rest) st1))"
  by pat_completeness auto
termination
  by (relation "measure (\<lambda>(E, m, n, mhd, tw, ty, i, mxo, tx, cs, st). length cs)")
     (auto simp add: nexttiled_def intro: le_imp_less_Suc length_dropWhile_le)

definition bstack :: "env \<Rightarrow> mid \<Rightarrow> wm \<Rightarrow> wm option" where
  "bstack E m st =
     (let M = heap_m st m;
          n = count_tiled st (nexttiled st (clients M)) 0
      in if n = 0 then Some st
         else if n > u32 (nmaster M) then
           (let mhd = (if nmaster M \<noteq> 0 then fp_mul E (wh M) (mfact M) else 0)
            in Option.bind (udiv (ww M) (n - nmaster M))
                 (\<lambda>tw. bstack_loop E m n mhd (s32 tw) (wy M + mhd) 0 0 (wx M)
                          (nexttiled st (clients M)) st))
         else bstack_loop E m n (wh M) (ww M) (wy M) 0 0 (wx M) (nexttiled st (clients M)) st)"

text \<open>The loop of \<open>bstackhoriz\<close>, lines 4680 to 4690.\<close>

function bstackhoriz_loop ::
  "env \<Rightarrow> mid \<Rightarrow> int \<Rightarrow> int \<Rightarrow> int \<Rightarrow> int \<Rightarrow> int \<Rightarrow> int \<Rightarrow> int \<Rightarrow> cid list \<Rightarrow> wm \<Rightarrow> wm option" where
  "bstackhoriz_loop E m n mhd th tx i mxo ty [] st = Some st"
| "bstackhoriz_loop E m n mhd th tx i mxo ty (c # rest) st =
     (if i < u32 (nmaster (heap_m st m)) then
      Option.bind (udiv (ww (heap_m st m) - mxo) (min n (u32 (nmaster (heap_m st m))) - i))
        (\<lambda>w. Option.bind
           (animateclient E st c (wx (heap_m st m) + mxo) (wy (heap_m st m))
              (s32 w - 2 * bw (heap_c st c)) (mhd - 2 * bw (heap_c st c)) 10 False)
           (\<lambda>st1. bstackhoriz_loop E m n mhd th tx (u32 (i + 1))
              (mxo + WIDTH (heap_c st1 c)) ty (nexttiled st1 rest) st1))
    else
      Option.bind
        (animateclient E st c tx ty (ww (heap_m st m) - 2 * bw (heap_c st c))
           (th - 2 * bw (heap_c st c)) 10 False)
        (\<lambda>st1. bstackhoriz_loop E m n mhd th tx (u32 (i + 1)) mxo
           (if th \<noteq> wh (heap_m st1 m) then ty + HEIGHT (heap_c st1 c) else ty)
           (nexttiled st1 rest) st1))"
  by pat_completeness auto
termination
  by (relation "measure (\<lambda>(E, m, n, mhd, th, tx, i, mxo, ty, cs, st). length cs)")
     (auto simp add: nexttiled_def intro: le_imp_less_Suc length_dropWhile_le)

definition bstackhoriz :: "env \<Rightarrow> mid \<Rightarrow> wm \<Rightarrow> wm option" where
  "bstackhoriz E m st =
     (let M = heap_m st m;
          n = count_tiled st (nexttiled st (clients M)) 0
      in if n = 0 then Some st
         else if n > u32 (nmaster M) then
           (let mhd = (if nmaster M \<noteq> 0 then fp_mul E (wh M) (mfact M) else 0)
            in Option.bind (udiv (wh M - mhd) (n - nmaster M))
                 (\<lambda>th. bstackhoriz_loop E m n mhd (s32 th) (wx M) 0 0 (wy M + mhd)
                          (nexttiled st (clients M)) st))
         else bstackhoriz_loop E m n (wh M) (wh M) (wx M) 0 0 (wy M)
                (nexttiled st (clients M)) st)"

section \<open>arrange\<close>

text \<open>
  \<open>showhide(c)\<close> over the stack chain from \<open>c\<close>. Only the call of \<open>resize\<close>
  changes the window manager's data.
\<close>

fun showhide :: "env \<Rightarrow> cid list \<Rightarrow> wm \<Rightarrow> wm" where
  "showhide E [] st = st"
| "showhide E (c # cs) st =
     (if ISVISIBLE st c then
        (let C = heap_c st c;
             st1 = (if cur_arrange E (heap_m st (mon C)) = None \<or>
                       (isfloating C \<and> (\<not> isfullscreen C \<or> isfakefullscreen C))
                    then resize E st c (cx C) (cy C) (cw C) (ch C) False
                    else st)
         in showhide E cs st1)
      else showhide E cs st)"

text \<open>
  \<open>arrangemon\<close>: \<open>strncpy\<close> copies at most 16 characters of the symbol, then the
  layout's function runs.
\<close>

definition arrangemon :: "env \<Rightarrow> mid \<Rightarrow> wm \<Rightarrow> wm option" where
  "arrangemon E m st =
     (let M = heap_m st m;
          st1 = st\<lparr>heap_m := (heap_m st)
                  (m := M\<lparr>ltsymbol := take 16 (symbol (layouts E (lt M (sellt M))))\<rparr>)\<rparr>
      in case cur_arrange E (heap_m st1 m) of
           None \<Rightarrow> Some st1
         | Some Tile \<Rightarrow> tile E m st1
         | Some Monocle \<Rightarrow> monocle E m st1
         | Some Bstack \<Rightarrow> bstack E m st1
         | Some Bstackhoriz \<Rightarrow> bstackhoriz E m st1)"

definition resetcursor :: "wm \<Rightarrow> wm" where
  "resetcursor st = (if \<not> altcursor st then st else st\<lparr>altcursor := False\<rparr>)"

text \<open>The two loops of \<open>arrange(NULL)\<close> over \<open>mons\<close>.\<close>

fun showhide_all :: "env \<Rightarrow> mid list \<Rightarrow> wm \<Rightarrow> wm" where
  "showhide_all E [] st = st"
| "showhide_all E (m # ms) st = showhide_all E ms (showhide E (stack (heap_m st m)) st)"

fun arrangemon_all :: "env \<Rightarrow> mid list \<Rightarrow> wm \<Rightarrow> wm option" where
  "arrangemon_all E [] st = Some st"
| "arrangemon_all E (m # ms) st = Option.bind (arrangemon E m st) (arrangemon_all E ms)"

text \<open>
  \<open>arrange(m)\<close>; \<open>restack(m)\<close> draws the bar and restacks the windows on the
  server, and changes nothing here.
\<close>

definition arrange :: "env \<Rightarrow> mid option \<Rightarrow> wm \<Rightarrow> wm option" where
  "arrange E mo st =
     (let st1 = resetcursor st in
      case mo of
        Some m \<Rightarrow> arrangemon E m (showhide E (stack (heap_m st1 m)) st1)
      | None \<Rightarrow> arrangemon_all E (mons st1) (showhide_all E (mons st1) st1))"

section \<open>Client lists and focus\<close>

text \<open>
  \<open>attach\<close>, \<open>attachstack\<close>, \<open>detach\<close>, \<open>detachstack\<close>. Unlinking \<open>c\<close> from a
  chain removes its occurrence from the list (a chain holds a client at most once);
  the lists say nothing of a call for a client that is not linked in the chain.
\<close>

definition upd_mon :: "mid \<Rightarrow> (monitor \<Rightarrow> monitor) \<Rightarrow> wm \<Rightarrow> wm" where
  "upd_mon m f st = st\<lparr>heap_m := (heap_m st)(m := f (heap_m st m))\<rparr>"

definition upd_client :: "cid \<Rightarrow> (client \<Rightarrow> client) \<Rightarrow> wm \<Rightarrow> wm" where
  "upd_client c f st = st\<lparr>heap_c := (heap_c st)(c := f (heap_c st c))\<rparr>"

definition attach :: "cid \<Rightarrow> wm \<Rightarrow> wm" where
  "attach c st = upd_mon (mon (heap_c st c)) (\<lambda>M. M\<lparr>clients := c # clients M\<rparr>) st"

definition attachstack :: "cid \<Rightarrow> wm \<Rightarrow> wm" where
  "attachstack c st = upd_mon (mon (heap_c st c)) (\<lambda>M. M\<lparr>stack := c # stack M\<rparr>) st"

definition detach :: "cid \<Rightarrow> wm \<Rightarrow> wm" where
  "detach c st = upd_mon (mon (heap_c st c)) (\<lambda>M. M\<lparr>clients := remove1 c (clients M)\<rparr>) st"

text \<open>Line 1199 looks for the first client of the stack that is \<open>ISVISIBLE\<close>.\<close>

definition detachstack :: "cid \<Rightarrow> wm \<Rightarrow> wm" where
  "detachstack c st =
     (let m = mon (heap_c st c);
          st1 = upd_mon m (\<lambda>M. M\<lparr>stack := remove1 c (stack M)\<rparr>) st
      in if sel (heap_m st1 m) = Some c
         then upd_mon m (\<lambda>M. M\<lparr>sel := find (ISVISIBLE st1) (stack M)\<rparr>) st1
         else st1)"

text \<open>\<open>seturgent\<close>; the urgency hint of the window itself is on the server.\<close>

definition seturgent :: "cid \<Rightarrow> bool \<Rightarrow> wm \<Rightarrow> wm" where
  "seturgent c urg st = upd_client c (\<lambda>C. C\<lparr>isurgent := urg\<rparr>) st"

text \<open>
  \<open>focus(c)\<close>, in its three parts. \<open>unfocus\<close>, \<open>grabbuttons\<close>, \<open>setfocus\<close>,
  \<open>drawbars\<close> and \<open>grabkeys\<close> only talk to the server.
  Lines 1545 and 1546 choose the client: \<open>c\<close> itself, or the first client of the
  selected monitor's stack that is visible and not hidden.
\<close>

definition focus_cand :: "cid option \<Rightarrow> wm \<Rightarrow> cid option" where
  "focus_cand co st =
     (case co of
        None \<Rightarrow> find (\<lambda>c. \<not> (\<not> ISVISIBLE st c \<or> HIDDEN st c)) (stack (heap_m st (selmon st)))
      | Some c \<Rightarrow>
          if \<not> ISVISIBLE st c \<or> HIDDEN st c
          then find (\<lambda>c. \<not> (\<not> ISVISIBLE st c \<or> HIDDEN st c)) (stack (heap_m st (selmon st)))
          else Some c)"

text \<open>Lines 1550 to 1555, for the chosen client.\<close>

definition focus_on :: "cid \<Rightarrow> wm \<Rightarrow> wm" where
  "focus_on c st =
     (let s1 = (if mon (heap_c st c) \<noteq> selmon st then st\<lparr>selmon := mon (heap_c st c)\<rparr> else st);
          s2 = (if isurgent (heap_c s1 c) then seturgent c False s1 else s1)
      in attachstack c (detachstack c s2))"

text \<open>Lines 1567 to 1579.\<close>

definition focus_finish :: "cid option \<Rightarrow> wm \<Rightarrow> wm" where
  "focus_finish co st =
     (let st2 = upd_mon (selmon st) (\<lambda>M. M\<lparr>sel := co\<rparr>) st;
          st3 = (if gesture (heap_m st2 (selmon st2)) \<noteq> 11 \<and> gesture (heap_m st2 (selmon st2)) \<noteq> 0
                 then upd_mon (selmon st2) (\<lambda>M. M\<lparr>gesture := 0\<rparr>) st2 else st2)
      in case co of
           None \<Rightarrow> (if \<not> isdesktop st3 then st3\<lparr>isdesktop := True\<rparr> else st3)
         | Some c \<Rightarrow> (if isdesktop st3 then st3\<lparr>isdesktop := False\<rparr> else st3))"

definition focus :: "cid option \<Rightarrow> wm \<Rightarrow> wm" where
  "focus co st0 =
     (let st = resetcursor st0;
          co1 = focus_cand co st
      in focus_finish co1 (case co1 of None \<Rightarrow> st | Some c \<Rightarrow> focus_on c st))"

section \<open>Tag views\<close>

definition updatebarpos :: "mid \<Rightarrow> wm \<Rightarrow> wm" where
  "updatebarpos m st =
     upd_mon m (\<lambda>M0.
       (let M = M0\<lparr>wy := my M0, wh := mh M0\<rparr>
        in if showbar M then
             (let M1 = M\<lparr>wh := wh M - bh st\<rparr>;
                  M2 = M1\<lparr>bar_y := (if topbar M1 then wy M1 else wy M1 + wh M1)\<rparr>
              in M2\<lparr>wy := (if topbar M2 then wy M2 + bh st else wy M2)\<rparr>)
           else M\<lparr>bar_y := - bh st\<rparr>)) st"

text \<open>\<open>togglebar\<close>; \<open>resizebarwin\<close> and the system tray are on the server.\<close>

definition togglebar :: "env \<Rightarrow> wm \<Rightarrow> wm option" where
  "togglebar E st =
     (let m = selmon st;
          st1 = upd_mon m (\<lambda>M. M\<lparr>showbar := \<not> showbar M,
                   ptag := (ptag M)\<lparr>showbars := (showbars (ptag M))(curtag (ptag M) := \<not> showbar M)\<rparr>\<rparr>) st
      in arrange E (Some (selmon st1)) (updatebarpos (selmon st1) st1))"

text \<open>
  \<open>for (i = 0; !(arg->ui & 1 << i); i++);\<close> from \<open>i\<close> on. \<open>1 << i\<close> is an \<open>int\<close>:
  the loop has no value once \<open>i\<close> reaches 31.
\<close>

function lowbit :: "tagmask \<Rightarrow> nat \<Rightarrow> nat option" where
  "lowbit ui i = (if 31 \<le> i then None else if bit ui i then Some i else lowbit ui (Suc i))"
  by pat_completeness auto
termination
  by (relation "measure (\<lambda>(ui, i). 31 - i)") auto

declare lowbit.simps [simp del]

text \<open>Lines 4435 to 4451 of \<open>view\<close>: the tag set and the tag index.\<close>

definition view_tags :: "env \<Rightarrow> tagmask \<Rightarrow> monitor \<Rightarrow> monitor option" where
  "view_tags E ui M0 =
     (let M = M0\<lparr>seltags := seltags M0 XOR 1\<rparr> in
      if ui AND TAGMASK E \<noteq> 0 then
        (let M1 = M\<lparr>tagset := (tagset M)(seltags M := ui AND TAGMASK E)\<rparr>;
             P = (ptag M1)\<lparr>prevtag := curtag (ptag M1)\<rparr>
         in if ui = NOT 0 then Some (M1\<lparr>ptag := P\<lparr>curtag := 0\<rparr>\<rparr>)
            else Option.bind (lowbit ui 0) (\<lambda>i. Some (M1\<lparr>ptag := P\<lparr>curtag := i + 1\<rparr>\<rparr>)))
      else
        (let tmptag = prevtag (ptag M);
             P = (ptag M)\<lparr>prevtag := curtag (ptag M)\<rparr>
         in Some (M\<lparr>ptag := P\<lparr>curtag := tmptag\<rparr>\<rparr>)))"

text \<open>Lines 4453 to 4457: the live fields are loaded from the Pertag block.\<close>

definition load_pertag :: "monitor \<Rightarrow> monitor" where
  "load_pertag M0 =
     (let P = ptag M0;
          M = M0\<lparr>nmaster := nmasters P (curtag P), mfact := mfacts P (curtag P),
                 sellt := sellts P (curtag P)\<rparr>;
          M1 = M\<lparr>lt := (lt M)(sellt M := ltidxs P (curtag P) (sellt M))\<rparr>
      in M1\<lparr>lt := (lt M1)(sellt M1 XOR 1 := ltidxs P (curtag P) (sellt M1 XOR 1))\<rparr>)"

text \<open>Lines 4459 and 4460.\<close>

definition view_bar :: "env \<Rightarrow> wm \<Rightarrow> wm option" where
  "view_bar E st =
     (if showbar (heap_m st (selmon st)) \<noteq>
         showbars (ptag (heap_m st (selmon st))) (curtag (ptag (heap_m st (selmon st))))
      then togglebar E st else Some st)"

definition view :: "env \<Rightarrow> tagmask \<Rightarrow> wm \<Rightarrow> wm option" where
  "view E ui st =
     Option.bind (view_tags E ui (heap_m st (selmon st)))
       (\<lambda>M. Option.bind (view_bar E (st\<lparr>heap_m := (heap_m st)(selmon st := load_pertag M)\<rparr>))
              (\<lambda>st2. let st3 = focus None st2 in arrange E (Some (selmon st3)) st3))"

section \<open>Frame conditions\<close>

text \<open>
  \<open>geom_eq C C'\<close>: the client record \<open>C'\<close> differs from \<open>C\<close> at most in the current
  and the previous geometry. \<open>symbol_eq M M'\<close>: the monitor record \<open>M'\<close> differs from
  \<open>M\<close> at most in the layout symbol. \<open>frame_on S st st'\<close>: the state \<open>st'\<close> differs
  from \<open>st\<close> at most in the geometry of the clients in \<open>S\<close>. \<open>frame_arr st st'\<close>:
  it differs at most in client geometry, layout symbols and the cursor flag.
\<close>

definition geom_eq :: "client \<Rightarrow> client \<Rightarrow> bool" where
  "geom_eq C C' =
     (mina C' = mina C \<and> maxa C' = maxa C \<and> basew C' = basew C \<and> baseh C' = baseh C \<and>
      incw C' = incw C \<and> inch C' = inch C \<and> maxw C' = maxw C \<and> maxh C' = maxh C \<and>
      minw C' = minw C \<and> minh C' = minh C \<and> bw C' = bw C \<and> tags C' = tags C \<and>
      isfloating C' = isfloating C \<and> isurgent C' = isurgent C \<and>
      isfullscreen C' = isfullscreen C \<and> isfakefullscreen C' = isfakefullscreen C \<and>
      issticky C' = issticky C \<and> mon C' = mon C \<and> win C' = win C)"

definition symbol_eq :: "monitor \<Rightarrow> monitor \<Rightarrow> bool" where
  "symbol_eq M M' =
     (mfact M' = mfact M \<and> nmaster M' = nmaster M \<and> num M' = num M \<and> bar_y M' = bar_y M \<and>
      mx M' = mx M \<and> my M' = my M \<and> mw M' = mw M \<and> mh M' = mh M \<and>
      wx M' = wx M \<and> wy M' = wy M \<and> ww M' = ww M \<and> wh M' = wh M \<and>
      seltags M' = seltags M \<and> sellt M' = sellt M \<and> tagset M' = tagset M \<and>
      showbar M' = showbar M \<and> topbar M' = topbar M \<and> clients M' = clients M \<and>
      sel M' = sel M \<and> stack M' = stack M \<and> gesture M' = gesture M \<and> lt M' = lt M \<and>
      ptag M' = ptag M)"

definition globals_eq :: "wm \<Rightarrow> wm \<Rightarrow> bool" where
  "globals_eq st st' =
     (mons st' = mons st \<and> selmon st' = selmon st \<and> bh st' = bh st \<and> sw st' = sw st \<and>
      sh st' = sh st \<and> animated st' = animated st \<and> isdesktop st' = isdesktop st \<and>
      wmstate st' = wmstate st)"

definition frame_on :: "cid set \<Rightarrow> wm \<Rightarrow> wm \<Rightarrow> bool" where
  "frame_on S st st' =
     (globals_eq st st' \<and> altcursor st' = altcursor st \<and> heap_m st' = heap_m st \<and>
      (\<forall>c. geom_eq (heap_c st c) (heap_c st' c)) \<and>
      (\<forall>c. c \<notin> S \<longrightarrow> heap_c st' c = heap_c st c))"

definition frame_arr :: "wm \<Rightarrow> wm \<Rightarrow> bool" where
  "frame_arr st st' =
     (globals_eq st st' \<and>
      (\<forall>c. geom_eq (heap_c st c) (heap_c st' c)) \<and>
      (\<forall>m. symbol_eq (heap_m st m) (heap_m st' m)))"

section \<open>Monitors\<close>

text \<open>
  \<open>createmon\<close>: the record that \<open>ecalloc\<close> zeroes and lines 1124 to 1144 fill.
  Line 1129 takes the live layout pair from \<open>layouts[3]\<close> and \<open>layouts[0]\<close>;
  lines 1139 and 1140 store the pair in the Pertag block the other way round.
\<close>

definition createmon :: "env \<Rightarrow> monitor" where
  "createmon E =
     \<lparr>ltsymbol = take 16 (symbol (layouts E 0)), mfact = cfg_mfact E, nmaster = cfg_nmaster E,
      num = 0, bar_y = 0, mx = 0, my = 0, mw = 0, mh = 0, wx = 0, wy = 0, ww = 0, wh = 0,
      seltags = 0, sellt = 0, tagset = (\<lambda>_. 1), showbar = cfg_showbar E,
      topbar = cfg_topbar E, clients = [], sel = None, stack = [], gesture = 0,
      lt = (\<lambda>i. if i = 0 then 3 else 0),
      ptag = \<lparr>curtag = 1, prevtag = 1, nmasters = (\<lambda>_. cfg_nmaster E),
               mfacts = (\<lambda>_. cfg_mfact E), sellts = (\<lambda>_. 0),
               ltidxs = (\<lambda>_ j. if j = 0 then 0 else 3),
               showbars = (\<lambda>_. cfg_showbar E)\<rparr>\<rparr>"

text \<open>
  \<open>view_eq M M'\<close>: the monitor records agree on the tag sets and on the live and
  the saved per-tag configuration. \<open>settle_bar M\<close> is what lines 4459 and 4460 do
  to these fields.
\<close>

definition view_eq :: "monitor \<Rightarrow> monitor \<Rightarrow> bool" where
  "view_eq M M' =
     (seltags M' = seltags M \<and> tagset M' = tagset M \<and> nmaster M' = nmaster M \<and>
      mfact M' = mfact M \<and> sellt M' = sellt M \<and> lt M' = lt M \<and> showbar M' = showbar M \<and>
      ptag M' = ptag M)"

definition settle_bar :: "monitor \<Rightarrow> monitor" where
  "settle_bar M =
     (if showbar M \<noteq> showbars (ptag M) (curtag (ptag M))
      then M\<lparr>showbar := \<not> showbar M,
             ptag := (ptag M)\<lparr>showbars := (showbars (ptag M))(curtag (ptag M) := \<not> showbar M)\<rparr>\<rparr>
      else M)"

text \<open>
  \<open>is_tiled st c\<close>: \<open>nexttiled\<close> stops at \<open>c\<close>. \<open>fits E st c x y w h\<close>:
  \<open>applysizehints\<close>, called with \<open>interact\<close> set, leaves the rectangle as proposed.
\<close>

definition is_tiled :: "wm \<Rightarrow> cid \<Rightarrow> bool" where
  "is_tiled st c = (\<not> (isfloating (heap_c st c) \<or> \<not> ISVISIBLE st c \<or> HIDDEN st c))"

definition fits :: "env \<Rightarrow> wm \<Rightarrow> cid \<Rightarrow> int \<Rightarrow> int \<Rightarrow> int \<Rightarrow> int \<Rightarrow> bool" where
  "fits E st c x y w h =
     (1 \<le> w \<and> 1 \<le> h \<and> bh st \<le> w \<and> bh st \<le> h \<and> x \<le> sw st \<and> y \<le> sh st \<and>
      0 \<le> x + w + 2 * bw (heap_c st c) \<and> 0 \<le> y + h + 2 * bw (heap_c st c) \<and>
      (\<not> hints_apply E st (heap_c st c) \<or> sizehints_body E (heap_c st c) w h = (w, h)))"

text \<open>
  \<open>monocle_placed E st m c C'\<close>: the record \<open>C'\<close> has the client \<open>c\<close> at the origin of
  the work area of \<open>m\<close>, and of a size that fills the work area either inside the
  client's border, or with the border taken off (the case of line 2845).
\<close>

definition monocle_placed :: "env \<Rightarrow> wm \<Rightarrow> mid \<Rightarrow> cid \<Rightarrow> client \<Rightarrow> bool" where
  "monocle_placed E st m c C' =
     (let M = heap_m st m; b = bw (heap_c st c)
      in cx C' = wx M \<and> cy C' = wy M \<and>
         ((cw C' = ww M - 2 * b \<and> ch C' = wh M - 2 * b) \<or>
          (borderless E st c \<and> cw C' = ww M \<and> ch C' = wh M)))"

text \<open>
  \<open>view_mon\<close>: what \<open>view\<close> does to the record of the selected monitor, up to
  \<open>view_eq\<close>. \<open>in_sync M\<close>: the live configuration of the monitor is the one saved
  in its Pertag block for the current tag index.
\<close>

definition view_mon :: "env \<Rightarrow> tagmask \<Rightarrow> monitor \<Rightarrow> monitor option" where
  "view_mon E ui M = map_option (\<lambda>M1. settle_bar (load_pertag M1)) (view_tags E ui M)"

definition in_sync :: "monitor \<Rightarrow> bool" where
  "in_sync M =
     (let P = ptag M; t = curtag P
      in nmaster M = nmasters P t \<and> mfact M = mfacts P t \<and> sellt M = sellts P t \<and>
         lt M 0 = ltidxs P t 0 \<and> lt M 1 = ltidxs P t 1 \<and> showbar M = showbars P t)"

text \<open>
  \<open>calm st\<close>: the animation is off, and an \<open>unsigned int\<close> counts the clients of
  every monitor.
\<close>

definition calm :: "wm \<Rightarrow> bool" where
  "calm st = (\<not> animated st \<and> (\<forall>m. int (length (clients (heap_m st m))) < 2 ^ 32))"

text \<open>Every client in the stack list of the selected monitor is owned by it.\<close>

definition stack_owned :: "wm \<Rightarrow> bool" where
  "stack_owned st = (\<forall>c \<in> set (stack (heap_m st (selmon st))). mon (heap_c st c) = selmon st)"

section \<open>The set of monitors\<close>

text \<open>
  \<open>XineramaScreenInfo\<close>, and \<open>isuniquegeom\<close>: \<open>unique\<close> is the array up to \<open>n\<close>.
  \<open>unique_screens\<close> is the loop of lines 4110 to 4112.
\<close>

record screen =
  screen_number :: int
  x_org :: int
  y_org :: int
  width :: int
  height :: int

definition isuniquegeom :: "screen list \<Rightarrow> screen \<Rightarrow> bool" where
  "isuniquegeom unique info =
     list_all (\<lambda>u. \<not> (x_org u = x_org info \<and> y_org u = y_org info \<and>
                       width u = width info \<and> height u = height info)) unique"

definition unique_screens :: "screen list \<Rightarrow> screen list" where
  "unique_screens info =
     fold (\<lambda>s unique. if isuniquegeom unique s then unique @ [s] else unique) info []"

text \<open>
  \<open>cleanupmon\<close> unlinks the monitor from the chain; the freed record stays in the
  store, where nothing reaches it.
\<close>

definition cleanupmon :: "mid \<Rightarrow> wm \<Rightarrow> wm" where
  "cleanupmon m st = st\<lparr>mons := remove1 m (mons st)\<rparr>"

text \<open>
  \<open>recttomon\<close>, and \<open>wintomon(root)\<close> as \<open>updategeom\<close> calls it: \<open>ptr\<close> is what
  \<open>getrootptr\<close> reports, \<open>None\<close> when the pointer is on another screen. The root
  window is no bar window and no client window, so the rest of \<open>wintomon\<close> falls
  through to \<open>selmon\<close>.
\<close>

definition INTERSECT :: "int \<Rightarrow> int \<Rightarrow> int \<Rightarrow> int \<Rightarrow> monitor \<Rightarrow> int" where
  "INTERSECT x y w h M =
     max 0 (min (x + w) (wx M + ww M) - max x (wx M)) *
     max 0 (min (y + h) (wy M + wh M) - max y (wy M))"

definition recttomon :: "int \<Rightarrow> int \<Rightarrow> int \<Rightarrow> int \<Rightarrow> wm \<Rightarrow> mid" where
  "recttomon x y w h st =
     snd (fold (\<lambda>m (area, r). let a = INTERSECT x y w h (heap_m st m)
                              in if a > area then (a, m) else (area, r))
            (mons st) (0, selmon st))"

definition wintomon_root :: "(int \<times> int) option \<Rightarrow> wm \<Rightarrow> mid" where
  "wintomon_root ptr st = (case ptr of Some (x, y) \<Rightarrow> recttomon x y 1 1 st | None \<Rightarrow> selmon st)"

text \<open>
  The body of the loop of lines 4137 to 4144, for the first client \<open>c\<close> of the monitor
  \<open>m\<close> with \<open>rest = c->next\<close>, and the loop. \<open>attach\<close> puts \<open>c\<close> back at the head of
  \<open>m->clients\<close> when \<open>m\<close> is \<open>mons\<close> itself, and the loop does not end then.
\<close>

definition migrate_step :: "mid \<Rightarrow> cid \<Rightarrow> cid list \<Rightarrow> wm \<Rightarrow> wm" where
  "migrate_step m c rest st =
     (let st1 = upd_mon m (\<lambda>M. M\<lparr>clients := rest\<rparr>) st;
          st2 = detachstack c st1;
          st3 = upd_client c (\<lambda>C. C\<lparr>mon := hd (mons st2)\<rparr>) st2
      in attachstack c (attach c st3))"

partial_function (option) migrate :: "mid \<Rightarrow> wm \<Rightarrow> wm option" where
  "migrate m st =
     (if clients (heap_m st m) = [] then Some st
      else migrate m (migrate_step m (hd (clients (heap_m st m))) (tl (clients (heap_m st m))) st))"

text \<open>
  The loop of lines 4135 to 4148, \<open>k\<close> rounds of it, with the flag \<open>dirty\<close>. The
  last monitor of the chain is emptied and removed. With no monitor left, \<open>m\<close> is
  \<open>NULL\<close> in line 4137.
\<close>

datatype fault = NullMonitor

fun shrink :: "nat \<Rightarrow> bool \<Rightarrow> wm \<Rightarrow> (fault + bool \<times> wm) option" where
  "shrink 0 dirty st = Some (Inr (dirty, st))"
| "shrink (Suc k) dirty st =
     (if mons st = [] then Some (Inl NullMonitor)
      else
        Option.bind (migrate (last (mons st)) st)
          (\<lambda>st1. shrink k (dirty \<or> clients (heap_m st (last (mons st))) \<noteq> [])
                    (cleanupmon (last (mons st))
                       (if last (mons st) = selmon st1
                        then st1\<lparr>selmon := hd (mons st1)\<rparr> else st1))))"

text \<open>
  The loop of lines 4115 to 4121: \<open>k\<close> new monitors at the end of the chain, each at
  an address that is not in the chain.
\<close>

definition fresh_mon :: "wm \<Rightarrow> mid" where
  "fresh_mon st = Suc (fold max (mons st) 0)"

fun grow :: "env \<Rightarrow> nat \<Rightarrow> wm \<Rightarrow> wm" where
  "grow E 0 st = st"
| "grow E (Suc k) st =
     grow E k (st\<lparr>heap_m := (heap_m st)(fresh_mon st := createmon E),
                   mons := mons st @ [fresh_mon st]\<rparr>)"

text \<open>
  The loop of lines 4122 to 4134 from index \<open>i\<close> on: \<open>us\<close> and \<open>ms\<close> are what is left
  of \<open>unique\<close> and of the chain.
\<close>

fun setgeoms :: "nat \<Rightarrow> nat \<Rightarrow> screen list \<Rightarrow> mid list \<Rightarrow> bool \<Rightarrow> wm \<Rightarrow> bool \<times> wm" where
  "setgeoms n i (u # us) (m # ms) dirty st =
     (if i \<ge> n \<or> x_org u \<noteq> mx (heap_m st m) \<or> y_org u \<noteq> my (heap_m st m) \<or>
         width u \<noteq> mw (heap_m st m) \<or> height u \<noteq> mh (heap_m st m)
      then setgeoms n (Suc i) us ms True
             (updatebarpos m
                (upd_mon m (\<lambda>M. M\<lparr>num := int i, mx := x_org u, wx := x_org u,
                                  my := y_org u, wy := y_org u, mw := width u, ww := width u,
                                  mh := height u, wh := height u\<rparr>) st))
      else setgeoms n (Suc i) us ms dirty st)"
| "setgeoms n i us ms dirty st = (dirty, st)"

text \<open>
  \<open>updategeom\<close>. \<open>xinerama\<close> is what \<open>XineramaQueryScreens\<close> reports, \<open>None\<close> when
  Xinerama is not active. The state has no value for \<open>selmon == NULL\<close>: where the
  code returns with an empty chain, the result is \<open>NullMonitor\<close>.
\<close>

definition updategeom ::
  "env \<Rightarrow> screen list option \<Rightarrow> (int \<times> int) option \<Rightarrow> wm \<Rightarrow> (fault + bool \<times> wm) option" where
  "updategeom E xinerama ptr st =
     Option.bind
       (case xinerama of
          Some info \<Rightarrow>
            (let n = length (mons st); unique = unique_screens info; nn = length unique
             in if n \<le> nn
                then (let st1 = grow E (nn - n) st
                      in Some (Inr (setgeoms n 0 unique (mons st1) False st1)))
                else shrink (n - nn) False st)
        | None \<Rightarrow>
            (let st1 = (if mons st = [] then grow E 1 st else st);
                 m = hd (mons st1)
             in if mw (heap_m st1 m) \<noteq> sw st1 \<or> mh (heap_m st1 m) \<noteq> sh st1
                then Some (Inr (True,
                       updatebarpos m
                         (upd_mon m (\<lambda>M. M\<lparr>mw := sw st1, ww := sw st1,
                                           mh := sh st1, wh := sh st1\<rparr>) st1)))
                else Some (Inr (False, st1))))
       (\<lambda>r. case r of
              Inl e \<Rightarrow> Some (Inl e)
            | Inr (dirty, st1) \<Rightarrow>
                if mons st1 = [] then Some (Inl NullMonitor)
                else if dirty
                then Some (Inr (True,
                       st1\<lparr>selmon := wintomon_root ptr (st1\<lparr>selmon := hd (mons st1)\<rparr>)\<rparr>))
                else Some (Inr (False, st1)))"

text \<open>The state that \<open>updategeom\<close> returns with, for stating properties.\<close>

definition result_state :: "(fault + bool \<times> wm) option \<Rightarrow> wm option" where
  "result_state r = (case r of Some (Inr (d, st)) \<Rightarrow> Some st | _ \<Rightarrow> None)"

section \<open>The floating-point operations\<close>

text \<open>
  IEEE 754 arithmetic on the rational values of the floats. \<open>fpround p emin q\<close> rounds
  \<open>q\<close> to the nearest value with \<open>p\<close> significant bits, ties to the even significand,
  with the exponent of the leading bit not below \<open>emin\<close> (below it the spacing stays
  that of the subnormal numbers). \<open>float\<close> is \<open>p = 24\<close>, \<open>emin = -126\<close>; \<open>double\<close> is
  \<open>p = 53\<close>, \<open>emin = -1022\<close>. Overflow to infinity is not part of \<open>fpround\<close>: the
  operations below stand for the C expressions as long as every intermediate result is
  in the range of its type, and where the code divides by zero, as said there.
  Expressions of type \<open>float\<close> are evaluated in \<open>float\<close> (\<open>FLT_EVAL_METHOD\<close> 0).
\<close>

definition rne :: "rat \<Rightarrow> int" where
  "rne q = (let n = \<lfloor>q\<rfloor>; r = q - of_int n
            in if r < 1 / 2 then n else if 1 / 2 < r then n + 1
               else if even n then n else n + 1)"

text \<open>\<open>ilog2 q\<close> is the exponent of the leading bit of \<open>q > 0\<close>.\<close>

definition ilog2 :: "rat \<Rightarrow> int" where
  "ilog2 q = (if 1 \<le> q then int (floorlog 2 (nat \<lfloor>q\<rfloor>)) - 1
              else - int (floorlog 2 (nat (\<lceil>1 / q\<rceil> - 1))))"

definition fpround :: "nat \<Rightarrow> int \<Rightarrow> rat \<Rightarrow> rat" where
  "fpround p emin q =
     (if q = 0 then 0
      else let e = max (ilog2 \<bar>q\<bar>) emin;
               ulp = 2 powi (e - int p + 1)
           in sgn q * of_int (rne (\<bar>q\<bar> / ulp)) * ulp)"

definition c_float :: "rat \<Rightarrow> rat" where
  "c_float = fpround 24 (- 126)"

definition c_double :: "rat \<Rightarrow> rat" where
  "c_double = fpround 53 (- 1022)"

text \<open>The conversion of a floating-point value to an integer type drops the fraction.\<close>

definition c_trunc :: "rat \<Rightarrow> int" where
  "c_trunc q = (if 0 \<le> q then \<lfloor>q\<rfloor> else \<lceil>q\<rceil>)"

text \<open>
  \<open>m->ww * m->mfact\<close> and \<open>m->mfact * m->wh\<close>: the \<open>int\<close> is converted to \<open>float\<close>,
  the product is a \<open>float\<close>, and the assignment converts it to the integer.
\<close>

definition c_mul :: "int \<Rightarrow> rat \<Rightarrow> int" where
  "c_mul a f = c_trunc (c_float (c_float (of_int a) * f))"

text \<open>
  \<open>f < (float)a / b\<close>: the quotient by zero is \<open>+inf\<close> for \<open>a > 0\<close>, and \<open>-inf\<close> or
  a NaN otherwise, which nothing is less than.
\<close>

definition c_lt_div :: "rat \<Rightarrow> int \<Rightarrow> int \<Rightarrow> bool" where
  "c_lt_div f a b =
     (if b = 0 then 0 < a else f < c_float (c_float (of_int a) / c_float (of_int b)))"

text \<open>\<open>a * f + 0.5\<close>: the product is a \<open>float\<close>, the sum with the constant a \<open>double\<close>.\<close>

definition c_mul_half :: "int \<Rightarrow> rat \<Rightarrow> int" where
  "c_mul_half a f = c_trunc (c_double (c_float (c_float (of_int a) * f) + 1 / 2))"

text \<open>
  \<open>easeOutQuint\<close> returns \<open>1 + (--t) * t * t\<close>, with the decrement done before \<open>t\<close>
  is read again: one plus the cube of \<open>t - 1\<close>, in \<open>double\<close>. \<open>c_ease a b t n\<close> is
  \<open>a + easeOutQuint((double)t / n) * (b - a)\<close> converted to \<open>int\<close>; the loop that calls
  it has \<open>n > t \<ge> 1\<close>.
\<close>

definition easeOutQuint :: "rat \<Rightarrow> rat" where
  "easeOutQuint t0 = (let t = c_double (t0 - 1) in c_double (1 + c_double (c_double (t * t) * t)))"

definition c_ease :: "int \<Rightarrow> int \<Rightarrow> int \<Rightarrow> int \<Rightarrow> int" where
  "c_ease a b t n =
     c_trunc (c_double (of_int a +
       c_double (easeOutQuint (c_double (of_int t / of_int n)) * of_int (b - a))))"

section \<open>A concrete configuration\<close>

text \<open>
  A small configuration on which the functions above are evaluated: one 1000 by 800
  screen with a bar of 20 pixels on top, a layout table (tile, bottom stack, floating,
  monocle, horizontal bottom stack), and the floating-point operations above.
\<close>

definition ex_client :: client where
  "ex_client = \<lparr>mina = 0, maxa = 0, cx = 0, cy = 0, cw = 100, ch = 100,
     oldx = 0, oldy = 0, oldw = 0, oldh = 0, basew = 0, baseh = 0, incw = 0, inch = 0,
     maxw = 0, maxh = 0, minw = 0, minh = 0, bw = 1, tags = 1, isfloating = False,
     isurgent = False, isfullscreen = False, isfakefullscreen = False, issticky = False,
     mon = 0, win = 0\<rparr>"

definition ex_pertag :: pertag where
  "ex_pertag = \<lparr>curtag = 1, prevtag = 1, nmasters = (\<lambda>_. 1), mfacts = (\<lambda>_. 1 / 2),
     sellts = (\<lambda>_. 0), ltidxs = (\<lambda>_ _. 0), showbars = (\<lambda>_. True)\<rparr>"

definition ex_monitor :: monitor where
  "ex_monitor = \<lparr>ltsymbol = ''[]='', mfact = 1 / 2, nmaster = 1, num = 0, bar_y = 0,
     mx = 0, my = 0, mw = 1000, mh = 800, wx = 0, wy = 20, ww = 1000, wh = 780,
     seltags = 0, sellt = 0, tagset = (\<lambda>_. 1), showbar = True, topbar = True,
     clients = [], sel = None, stack = [], gesture = 0, lt = (\<lambda>_. 0), ptag = ex_pertag\<rparr>"

definition ex_wm :: wm where
  "ex_wm = \<lparr>heap_c = (\<lambda>i. ex_client\<lparr>win := i\<rparr>), heap_m = (\<lambda>_. ex_monitor), mons = [0],
     selmon = 0, bh = 20, sw = 1000, sh = 800, animated = False, altcursor = False,
     isdesktop = False, wmstate = (\<lambda>_. 1)\<rparr>"

definition ex_layouts :: "nat \<Rightarrow> layout" where
  "ex_layouts i =
     (if i = 0 then \<lparr>symbol = ''[]='', arrangefn = Some Tile\<rparr>
      else if i = 1 then \<lparr>symbol = ''TTT'', arrangefn = Some Bstack\<rparr>
      else if i = 2 then \<lparr>symbol = ''><>'', arrangefn = None\<rparr>
      else if i = 3 then \<lparr>symbol = ''[M]'', arrangefn = Some Monocle\<rparr>
      else \<lparr>symbol = ''==='', arrangefn = Some Bstackhoriz\<rparr>)"

definition ex_env :: env where
  "ex_env = \<lparr>resizehints = False, layouts = ex_layouts, ntags = 9, cfg_mfact = 1 / 2,
     cfg_nmaster = 1, cfg_showbar = True, cfg_topbar = True, clientcount = (\<lambda>_. 0),
     fp_lt_div = c_lt_div, fp_mul_half = c_mul_half, fp_mul = c_mul, fp_ease = c_ease\<rparr>"

text \<open>
  Two monitors side by side. Monitor 0 is selected and owns the clients 1, 2 and 3
  (attached in that order, focused in the order 3, 2, 1); client 2 is iconified.
  Monitor 1 owns client 4.
\<close>

definition ex_two :: wm where
  "ex_two = ex_wm\<lparr>
     heap_c := (\<lambda>i. ex_client\<lparr>win := i, mon := (if i = 4 then 1 else 0)\<rparr>),
     heap_m := (\<lambda>m. if m = 0
                     then ex_monitor\<lparr>clients := [3, 2, 1], stack := [1, 2, 3], sel := Some 1\<rparr>
                     else ex_monitor\<lparr>num := 1, mx := 1000, wx := 1000,
                            clients := [4], stack := [4], sel := Some 4\<rparr>),
     mons := [0, 1],
     sw := 2000,
     wmstate := (\<lambda>w. if w = 2 then IconicState else 1)\<rparr>"

text \<open>
  One monitor in the monocle layout with two clients on the viewed tag: client 1 is
  tiled, client 2 is floating.
\<close>

definition ex_mono :: wm where
  "ex_mono = ex_wm\<lparr>
     heap_c := (\<lambda>i. ex_client\<lparr>win := i, isfloating := (i = 2)\<rparr>),
     heap_m := (\<lambda>_. ex_monitor\<lparr>clients := [2, 1], stack := [1, 2], sel := Some 1,
                       lt := (\<lambda>_. 3)\<rparr>)\<rparr>"

text \<open>
  One monitor in the tile layout with two tiled clients; client 2, the master, asks
  for widths in steps of 7. \<open>ex_env_hints\<close> is the configuration with
  \<open>resizehints\<close> set.
\<close>

definition ex_tile :: wm where
  "ex_tile = ex_wm\<lparr>
     heap_c := (\<lambda>i. ex_client\<lparr>win := i, incw := (if i = 2 then 7 else 0)\<rparr>),
     heap_m := (\<lambda>_. ex_monitor\<lparr>clients := [2, 1], stack := [1, 2], sel := Some 1\<rparr>)\<rparr>"

definition ex_env_hints :: env where
  "ex_env_hints = ex_env\<lparr>resizehints := True\<rparr>"

text \<open>The same monitor with the split factor \<open>0.7f\<close>, the float next to seven tenths.\<close>

definition ex_tile7 :: wm where
  "ex_tile7 = ex_tile\<lparr>heap_m := (\<lambda>m. (heap_m ex_tile m)\<lparr>mfact := 11744051 / 16777216\<rparr>)\<rparr>"

text \<open>
  The two monitors of \<open>ex_two\<close>, monitor 1 now owning the clients 5 and 4 in that
  order, and the one screen that Xinerama reports once the second output is unplugged.
\<close>

definition ex_screen :: screen where
  "ex_screen = \<lparr>screen_number = 0, x_org = 0, y_org = 0, width = 1000, height = 800\<rparr>"

definition ex_unplug :: wm where
  "ex_unplug = ex_two\<lparr>
     heap_c := (\<lambda>i. ex_client\<lparr>win := i, mon := (if i = 4 \<or> i = 5 then 1 else 0)\<rparr>),
     heap_m := (\<lambda>m. if m = 0 then heap_m ex_two 0
                     else (heap_m ex_two 1)\<lparr>clients := [5, 4], stack := [4, 5]\<rparr>)\<rparr>"

text \<open>The first monitor right after \<open>createmon\<close> and \<open>updategeom\<close>; no client yet.\<close>

definition ex_fresh :: wm where
  "ex_fresh = ex_wm\<lparr>heap_m :=
     (\<lambda>_. (createmon ex_env)\<lparr>mw := 1000, mh := 800, wy := 20, ww := 1000, wh := 780\<rparr>)\<rparr>"

text \<open>
  A monitor without clients whose Pertag block differs from tag to tag; the live
  configuration is the one saved for the current tag index 1.
\<close>

definition ex_sync :: wm where
  "ex_sync = ex_wm\<lparr>heap_m := (\<lambda>_. ex_monitor\<lparr>
     nmaster := 1, mfact := 1 / 3, sellt := 1, lt := (\<lambda>i. i + 1), showbar := True,
     ptag := \<lparr>curtag = 1, prevtag = 2, nmasters = (\<lambda>i. int i), mfacts = (\<lambda>i. 1 / (2 + of_nat i)),
              sellts = (\<lambda>i. i mod 2), ltidxs = (\<lambda>i j. i + j), showbars = (\<lambda>i. i \<noteq> 3)\<rparr>\<rparr>)\<rparr>"

section \<open>Properties\<close>

lemmas ex_defs = ex_client_def ex_pertag_def ex_monitor_def ex_wm_def ex_layouts_def ex_env_def
  ex_two_def ex_fresh_def ex_sync_def ex_mono_def
  ex_tile_def ex_env_hints_def ex_tile7_def ex_screen_def ex_unplug_def

subsection \<open>applysizehints\<close>

lemma fst_sizehints_body:
  assumes "\<not> aspect_set C"
  shows "fst (sizehints_body E C w h) =
    (let w1 = w - basew C;
         w2 = (if incw C \<noteq> 0 then w1 - w1 smod incw C else w1);
         w3 = max (w2 + basew C) (minw C)
     in if maxw C \<noteq> 0 then min w3 (maxw C) else w3)"
proof (cases "basew C = minw C \<and> baseh C = minh C")
  case True
  with assms show ?thesis by (simp add: sizehints_body_def Let_def)
next
  case False
  with assms show ?thesis by (simp add: sizehints_body_def Let_def)
qed

lemma snd_sizehints_body:
  assumes "\<not> aspect_set C"
  shows "snd (sizehints_body E C w h) =
    (let h1 = h - baseh C;
         h2 = (if inch C \<noteq> 0 then h1 - h1 smod inch C else h1);
         h3 = max (h2 + baseh C) (minh C)
     in if maxh C \<noteq> 0 then min h3 (maxh C) else h3)"
proof (cases "basew C = minw C \<and> baseh C = minh C")
  case True
  with assms show ?thesis by (simp add: sizehints_body_def Let_def)
next
  case False
  with assms show ?thesis by (simp add: sizehints_body_def Let_def)
qed

lemma floor_bh_ge: "bh st \<le> floor_bh st v"
  by (auto simp add: floor_bh_def)

lemma floor_bh_id: "1 \<le> v \<Longrightarrow> bh st \<le> v \<Longrightarrow> floor_bh st v = v"
  by (simp add: floor_bh_def)

lemma res_w_applysizehints:
  "res_w (applysizehints E st c x y w h interact) =
     (if hints_apply E st (heap_c st c)
      then fst (sizehints_body E (heap_c st c) (floor_bh st w) (floor_bh st h))
      else floor_bh st w)"
  by (simp add: applysizehints_def res_w_def floor_bh_def Let_def split_def)

lemma res_h_applysizehints:
  "res_h (applysizehints E st c x y w h interact) =
     (if hints_apply E st (heap_c st c)
      then snd (sizehints_body E (heap_c st c) (floor_bh st w) (floor_bh st h))
      else floor_bh st h)"
  by (simp add: applysizehints_def res_h_def floor_bh_def Let_def split_def)

lemmas ash_defs = applysizehints_def clamp_pos_def hints_apply_def sizehints_body_def
  cur_arrange_def WIDTH_def HEIGHT_def res_w_def res_h_def aspect_set_def

text \<open>
  C5, as the code has it. A client with \<open>incw = 10\<close>, \<open>basew = 0\<close>, \<open>minw = 20\<close> and
  \<open>maxw = 0\<close> gets the proposed width 47 resolved to 40 when the hint resolution of
  line 696 runs (resizehints set, or the client floating, or the layout without
  arrange function), the client has no aspect bounds and the bar is not thicker than
  47; 40 is then the largest value not above 47 that is congruent to \<open>minw\<close> modulo
  \<open>incw\<close>, and it is at least \<open>minw\<close>.
\<close>

theorem applysizehints_incw_47:
  assumes "incw (heap_c st c) = 10" and "basew (heap_c st c) = 0"
    and "minw (heap_c st c) = 20" and "maxw (heap_c st c) = 0"
    and "hints_apply E st (heap_c st c)"
    and "\<not> aspect_set (heap_c st c)"
    and "bh st \<le> 47"
  shows "res_w (applysizehints E st c x y 47 h interact) = 40 \<and>
         minw (heap_c st c) \<le> 40 \<and>
         40 mod incw (heap_c st c) = minw (heap_c st c) mod incw (heap_c st c) \<and>
         (\<forall>v. v \<le> 47 \<and> v mod incw (heap_c st c) = minw (heap_c st c) mod incw (heap_c st c)
              \<longrightarrow> v \<le> 40)"
proof -
  have "floor_bh st 47 = 47"
    using assms(7) by (simp add: floor_bh_def)
  then have "res_w (applysizehints E st c x y 47 h interact) = 40"
    using assms by (simp add: res_w_applysizehints fst_sizehints_body Let_def signed_modulo_int_def)
  moreover have "v \<le> 40" if "v \<le> 47" and "v mod 10 = 0" for v :: int
    using that by presburger
  ultimately show ?thesis
    using assms by simp
qed

theorem applysizehints_incw_47_witness:
  "res_w (applysizehints ex_env
      (ex_wm\<lparr>heap_c := (\<lambda>_. ex_client\<lparr>incw := 10, minw := 20, isfloating := True\<rparr>)\<rparr>)
      0 0 0 47 100 False) = 40"
  using applysizehints_incw_47 [of
      "ex_wm\<lparr>heap_c := (\<lambda>_. ex_client\<lparr>incw := 10, minw := 20, isfloating := True\<rparr>)\<rparr>"
      0 ex_env 0 0 100 False]
  by (simp add: ex_defs hints_apply_def aspect_set_def)

text \<open>
  C5 as stated fails: the same client, tiled under the tile layout with
  \<open>resizehints\<close> off, keeps the width 47.
\<close>

theorem applysizehints_incw_47_counterexample:
  "incw (ex_client\<lparr>incw := 10, minw := 20\<rparr>) = 10 \<and>
   basew (ex_client\<lparr>incw := 10, minw := 20\<rparr>) = 0 \<and>
   minw (ex_client\<lparr>incw := 10, minw := 20\<rparr>) = 20 \<and>
   maxw (ex_client\<lparr>incw := 10, minw := 20\<rparr>) = 0 \<and>
   res_w (applysizehints ex_env
      (ex_wm\<lparr>heap_c := (\<lambda>_. ex_client\<lparr>incw := 10, minw := 20\<rparr>)\<rparr>) 0 0 0 47 100 False) = 47"
  by (simp add: ex_defs ash_defs Let_def)

text \<open>
  C7, as the code has it. The floor of \<open>bh\<close> is applied before the hint resolution of
  line 696: the resolved width and height are at least \<open>bh\<close> when that resolution is
  skipped, and when it runs for a client without aspect bounds, with zero increments,
  and with each declared maximum either unset or at least \<open>bh\<close>.
\<close>

theorem applysizehints_floor_bh:
  assumes "\<not> hints_apply E st (heap_c st c) \<or>
           (\<not> aspect_set (heap_c st c) \<and> incw (heap_c st c) = 0 \<and> inch (heap_c st c) = 0 \<and>
            (maxw (heap_c st c) = 0 \<or> bh st \<le> maxw (heap_c st c)) \<and>
            (maxh (heap_c st c) = 0 \<or> bh st \<le> maxh (heap_c st c)))"
  shows "bh st \<le> res_w (applysizehints E st c x y w h interact) \<and>
         bh st \<le> res_h (applysizehints E st c x y w h interact)"
proof (cases "hints_apply E st (heap_c st c)")
  case False
  then show ?thesis
    by (simp add: res_w_applysizehints res_h_applysizehints floor_bh_ge)
next
  case True
  with assms have a: "\<not> aspect_set (heap_c st c)" "incw (heap_c st c) = 0" "inch (heap_c st c) = 0"
    and mw: "maxw (heap_c st c) = 0 \<or> bh st \<le> maxw (heap_c st c)"
    and mh: "maxh (heap_c st c) = 0 \<or> bh st \<le> maxh (heap_c st c)"
    by auto
  have "bh st \<le> res_w (applysizehints E st c x y w h interact)"
    using True a mw floor_bh_ge [of st w]
    by (auto simp add: res_w_applysizehints fst_sizehints_body Let_def)
  moreover have "bh st \<le> res_h (applysizehints E st c x y w h interact)"
    using True a mh floor_bh_ge [of st h]
    by (auto simp add: res_h_applysizehints snd_sizehints_body Let_def)
  ultimately show ?thesis by simp
qed

theorem applysizehints_floor_bh_witness:
  "bh ex_wm \<le> res_w (applysizehints ex_env ex_wm 0 5 5 3 4 True) \<and>
   bh ex_wm \<le> res_h (applysizehints ex_env ex_wm 0 5 5 3 4 True)"
  using applysizehints_floor_bh [of ex_env ex_wm 0 5 5 3 4 True]
  by (simp add: ex_defs hints_apply_def cur_arrange_def)

text \<open>
  C7 as stated fails: a floating client that declares a maximum width of 10 is
  resolved to the width 10 under a bar of thickness 20.
\<close>

theorem applysizehints_floor_bh_counterexample:
  "bh ex_wm = 20 \<and>
   res_w (applysizehints ex_env
      (ex_wm\<lparr>heap_c := (\<lambda>_. ex_client\<lparr>isfloating := True, maxw := 10\<rparr>)\<rparr>)
      0 0 0 100 100 False) = 10"
  by (simp add: ex_defs ash_defs Let_def)

subsection \<open>focus and detachstack\<close>

lemma focus_on_props:
  "selmon (focus_on c st) = mon (heap_c st c)"
  "mon (heap_c (focus_on c st) c') = mon (heap_c st c')"
  "stack (heap_m (focus_on c st) (mon (heap_c st c))) =
     c # remove1 c (stack (heap_m st (mon (heap_c st c))))"
  "ISVISIBLE (focus_on c st) c' = ISVISIBLE st c'"
  "HIDDEN (focus_on c st) c' = HIDDEN st c'"
  by (auto simp add: focus_on_def Let_def attachstack_def detachstack_def seturgent_def
      upd_mon_def upd_client_def ISVISIBLE_def HIDDEN_def)

lemma focus_finish_props:
  "selmon (focus_finish co st) = selmon st"
  "sel (heap_m (focus_finish co st) (selmon st)) = co"
  "stack (heap_m (focus_finish co st) m) = stack (heap_m st m)"
  "ISVISIBLE (focus_finish co st) c' = ISVISIBLE st c'"
  "HIDDEN (focus_finish co st) c' = HIDDEN st c'"
  by (auto simp add: focus_finish_def Let_def upd_mon_def ISVISIBLE_def HIDDEN_def
      split: option.splits)

lemma resetcursor_props:
  "selmon (resetcursor st) = selmon st"
  "heap_m (resetcursor st) = heap_m st"
  "heap_c (resetcursor st) = heap_c st"
  "ISVISIBLE (resetcursor st) c' = ISVISIBLE st c'"
  "HIDDEN (resetcursor st) c' = HIDDEN st c'"
  by (auto simp add: resetcursor_def ISVISIBLE_def HIDDEN_def)

lemma focus_cand_Some:
  assumes "focus_cand co st = Some c"
  shows "ISVISIBLE st c \<and> \<not> HIDDEN st c"
  using assms
  by (auto simp add: focus_cand_def find_Some_iff split: option.splits if_splits)

lemma focus_sel_eq:
  "sel (heap_m (focus co st) (selmon (focus co st))) = focus_cand co (resetcursor st)"
  by (cases "focus_cand co (resetcursor st)")
     (simp_all add: focus_def Let_def focus_finish_props)

lemmas focus_defs = focus_def focus_cand_def focus_on_def focus_finish_def resetcursor_def
  attachstack_def detachstack_def seturgent_def upd_mon_def upd_client_def
  ISVISIBLE_def HIDDEN_def IconicState_def

text \<open>
  C8. When \<open>focus\<close> has returned, the focused-client pointer of the selected monitor
  is null, or it points to a client that is in that monitor's stack list, is visible
  (\<open>ISVISIBLE\<close>: on the active tag set, or sticky) and is not hidden.
\<close>

theorem focus_sel_valid:
  assumes "sel (heap_m (focus co st) (selmon (focus co st))) = Some c"
  shows "c \<in> set (stack (heap_m (focus co st) (selmon (focus co st)))) \<and>
         ISVISIBLE (focus co st) c \<and> \<not> HIDDEN (focus co st) c"
proof (cases "focus_cand co (resetcursor st)")
  case None
  then have "sel (heap_m (focus co st) (selmon (focus co st))) = None"
    by (simp add: focus_def Let_def focus_finish_props)
  with assms show ?thesis by simp
next
  case (Some d)
  then have f: "focus co st = focus_finish (Some d) (focus_on d (resetcursor st))"
    by (simp add: focus_def Let_def)
  have "sel (heap_m (focus co st) (selmon (focus co st))) = Some d"
    by (simp add: f focus_finish_props)
  with assms have cd: "c = d" by simp
  have vis: "ISVISIBLE (resetcursor st) d \<and> \<not> HIDDEN (resetcursor st) d"
    using Some by (rule focus_cand_Some)
  have sm: "selmon (focus co st) = mon (heap_c (resetcursor st) d)"
    by (simp add: f focus_finish_props focus_on_props)
  have "stack (heap_m (focus co st) (selmon (focus co st))) =
          d # remove1 d (stack (heap_m (resetcursor st) (mon (heap_c (resetcursor st) d))))"
    unfolding sm by (simp add: f focus_finish_props focus_on_props)
  moreover have "ISVISIBLE (focus co st) d \<and> \<not> HIDDEN (focus co st) d"
    using vis by (simp add: f focus_finish_props focus_on_props)
  ultimately show ?thesis
    using cd by simp
qed

text \<open>
  On the two monitors: focusing the iconified client 2 falls back to client 1, the
  first client of the stack that is visible and not hidden.
\<close>

theorem focus_sel_valid_witness:
  "sel (heap_m (focus (Some 2) ex_two) (selmon (focus (Some 2) ex_two))) = Some 1 \<and>
   1 \<in> set (stack (heap_m (focus (Some 2) ex_two) (selmon (focus (Some 2) ex_two)))) \<and>
   ISVISIBLE (focus (Some 2) ex_two) 1 \<and> \<not> HIDDEN (focus (Some 2) ex_two) 1"
proof -
  have "focus_cand (Some 2) (resetcursor ex_two) = Some 1"
    by (simp add: ex_defs focus_cand_def resetcursor_def ISVISIBLE_def HIDDEN_def IconicState_def)
  then have s: "sel (heap_m (focus (Some 2) ex_two) (selmon (focus (Some 2) ex_two))) = Some 1"
    by (simp add: focus_sel_eq)
  from focus_sel_valid [OF s] s show ?thesis by simp
qed

text \<open>
  C10. Focusing a client that is visible and not hidden, and whose monitor is not
  the selected one, makes its monitor the selected monitor and the client that
  monitor's focused client.
\<close>

theorem focus_switches_selmon:
  assumes "ISVISIBLE st c" and "\<not> HIDDEN st c" and "mon (heap_c st c) \<noteq> selmon st"
  shows "selmon (focus (Some c) st) = mon (heap_c st c) \<and>
         sel (heap_m (focus (Some c) st) (mon (heap_c st c))) = Some c"
proof -
  have "focus_cand (Some c) (resetcursor st) = Some c"
    using assms by (simp add: focus_cand_def resetcursor_props)
  then have f: "focus (Some c) st = focus_finish (Some c) (focus_on c (resetcursor st))"
    by (simp add: focus_def Let_def)
  have sm: "selmon (focus_on c (resetcursor st)) = mon (heap_c st c)"
    by (simp add: focus_on_props resetcursor_props)
  show ?thesis
    using focus_finish_props(2) [of "Some c" "focus_on c (resetcursor st)"]
    by (simp add: f focus_finish_props sm)
qed

theorem focus_switches_selmon_witness:
  "selmon ex_two = 0 \<and> selmon (focus (Some 4) ex_two) = 1 \<and>
   sel (heap_m (focus (Some 4) ex_two) 1) = Some 4"
proof -
  have "ISVISIBLE ex_two 4" and "\<not> HIDDEN ex_two 4" and "mon (heap_c ex_two 4) \<noteq> selmon ex_two"
    by (simp_all add: ex_defs ISVISIBLE_def HIDDEN_def IconicState_def)
  from focus_switches_selmon [OF this] show ?thesis
    by (simp add: ex_defs)
qed

text \<open>
  C3 on the two monitors. Client 1 is the focused client of monitor 0, whose stack is
  1, 2, 3; client 2 is visible and iconified, client 3 is visible and not hidden.
  \<open>detachstack\<close> of client 1 leaves the focused-client pointer on the hidden client 2,
  where \<open>focus\<close> on the same stack chooses client 3.
\<close>

theorem detachstack_sel_hidden:
  "sel (heap_m ex_two 0) = Some 1 \<and> stack (heap_m ex_two 0) = [1, 2, 3] \<and>
   stack (heap_m (detachstack 1 ex_two) 0) = [2, 3] \<and>
   sel (heap_m (detachstack 1 ex_two) 0) = Some 2 \<and>
   ISVISIBLE (detachstack 1 ex_two) 2 \<and> HIDDEN (detachstack 1 ex_two) 2 \<and>
   ISVISIBLE (detachstack 1 ex_two) 3 \<and> \<not> HIDDEN (detachstack 1 ex_two) 3 \<and>
   focus_cand None (detachstack 1 ex_two) = Some 3"
  by (simp add: ex_defs focus_defs Let_def)

theorem detachstack_sel_hidden_witness:
  "sel (heap_m (detachstack 1 ex_two) 0) = Some 2 \<and>
   wmstate (detachstack 1 ex_two) (win (heap_c (detachstack 1 ex_two) 2)) = IconicState"
  using detachstack_sel_hidden by (simp add: HIDDEN_def)

subsection \<open>Frame conditions\<close>

lemma geom_eq_refl [simp]: "geom_eq C C"
  by (simp add: geom_eq_def)

lemma geom_eq_trans: "geom_eq C C' \<Longrightarrow> geom_eq C' C'' \<Longrightarrow> geom_eq C C''"
  by (simp add: geom_eq_def)

lemma symbol_eq_refl [simp]: "symbol_eq M M"
  by (simp add: symbol_eq_def)

lemma symbol_eq_trans: "symbol_eq M M' \<Longrightarrow> symbol_eq M' M'' \<Longrightarrow> symbol_eq M M''"
  by (simp add: symbol_eq_def)

lemma globals_eq_refl [simp]: "globals_eq st st"
  by (simp add: globals_eq_def)

lemma globals_eq_trans: "globals_eq a b \<Longrightarrow> globals_eq b c \<Longrightarrow> globals_eq a c"
  by (simp add: globals_eq_def)

lemma frame_on_refl [simp]: "frame_on S st st"
  by (simp add: frame_on_def)

lemma frame_on_trans:
  assumes "frame_on S a b" and "frame_on T b c"
  shows "frame_on (S \<union> T) a c"
  using assms unfolding frame_on_def
  by (auto intro: geom_eq_trans globals_eq_trans)

lemma frame_on_mono: "frame_on S a b \<Longrightarrow> S \<subseteq> T \<Longrightarrow> frame_on T a b"
  unfolding frame_on_def by auto

lemma frame_arr_refl [simp]: "frame_arr st st"
  by (simp add: frame_arr_def)

lemma frame_arr_trans:
  assumes "frame_arr a b" and "frame_arr b c"
  shows "frame_arr a c"
  using assms unfolding frame_arr_def
  by (auto intro: geom_eq_trans globals_eq_trans symbol_eq_trans)

lemma frame_on_arr: "frame_on S a b \<Longrightarrow> frame_arr a b"
  unfolding frame_on_def frame_arr_def by simp

lemma frame_arr_client:
  assumes "frame_arr st st'"
  shows "geom_eq (heap_c st c) (heap_c st' c)"
  using assms by (simp add: frame_arr_def)

lemma frame_arr_monitor:
  assumes "frame_arr st st'"
  shows "symbol_eq (heap_m st m) (heap_m st' m)"
  using assms by (simp add: frame_arr_def)

lemma frame_arr_ISVISIBLE:
  assumes "frame_arr st st'"
  shows "ISVISIBLE st' c = ISVISIBLE st c"
proof -
  have g: "geom_eq (heap_c st c) (heap_c st' c)"
    using assms by (rule frame_arr_client)
  have s: "symbol_eq (heap_m st (mon (heap_c st c))) (heap_m st' (mon (heap_c st c)))"
    using assms by (rule frame_arr_monitor)
  from g have "mon (heap_c st' c) = mon (heap_c st c)" "tags (heap_c st' c) = tags (heap_c st c)"
    "issticky (heap_c st' c) = issticky (heap_c st c)"
    by (simp_all add: geom_eq_def)
  moreover from s have "tagset (heap_m st' (mon (heap_c st c))) = tagset (heap_m st (mon (heap_c st c)))"
    "seltags (heap_m st' (mon (heap_c st c))) = seltags (heap_m st (mon (heap_c st c)))"
    by (simp_all add: symbol_eq_def)
  ultimately show ?thesis
    by (simp add: ISVISIBLE_def Let_def)
qed

lemma frame_arr_HIDDEN: "frame_arr st st' \<Longrightarrow> HIDDEN st' c = HIDDEN st c"
  unfolding frame_arr_def HIDDEN_def geom_eq_def globals_eq_def by simp

lemma frame_arr_nexttiled: "frame_arr st st' \<Longrightarrow> nexttiled st' cs = nexttiled st cs"
proof -
  assume f: "frame_arr st st'"
  then have "isfloating (heap_c st' c) = isfloating (heap_c st c)" for c
    unfolding frame_arr_def geom_eq_def by simp
  with f show ?thesis
    by (simp add: nexttiled_def frame_arr_ISVISIBLE frame_arr_HIDDEN)
qed

lemma frame_arr_cur_arrange:
  "frame_arr st st' \<Longrightarrow> cur_arrange E (heap_m st' m) = cur_arrange E (heap_m st m)"
  unfolding frame_arr_def symbol_eq_def cur_arrange_def by simp

lemma frame_arr_borderless: "frame_arr st st' \<Longrightarrow> borderless E st' c = borderless E st c"
proof -
  assume f: "frame_arr st st'"
  then have g: "geom_eq (heap_c st c) (heap_c st' c)"
    and s: "\<And>m. symbol_eq (heap_m st m) (heap_m st' m)"
    unfolding frame_arr_def by simp_all
  have m: "mon (heap_c st' c) = mon (heap_c st c)" "isfullscreen (heap_c st' c) = isfullscreen (heap_c st c)"
     "isfloating (heap_c st' c) = isfloating (heap_c st c)"
    using g by (simp_all add: geom_eq_def)
  have cl: "clients (heap_m st' m) = clients (heap_m st m)" for m
    using s [of m] by (simp add: symbol_eq_def)
  show ?thesis
    by (simp add: borderless_def Let_def m cl frame_arr_nexttiled [OF f] frame_arr_cur_arrange [OF f]
        cong: list.case_cong)
qed

lemma frame_arr_hints_apply:
  assumes "frame_arr st st'"
  shows "hints_apply E st' (heap_c st' c) = hints_apply E st (heap_c st c)"
proof -
  have g: "geom_eq (heap_c st c) (heap_c st' c)"
    using assms by (rule frame_arr_client)
  then have "mon (heap_c st' c) = mon (heap_c st c)" "isfloating (heap_c st' c) = isfloating (heap_c st c)"
    by (simp_all add: geom_eq_def)
  then show ?thesis
    by (simp add: hints_apply_def frame_arr_cur_arrange [OF assms])
qed

lemma resizeclient_frame: "frame_on {c} st (resizeclient E st c x y w h)"
  by (simp add: resizeclient_def Let_def frame_on_def geom_eq_def globals_eq_def)

lemma resize_frame: "frame_on {c} st (resize E st c x y w h i)"
  by (simp add: resize_def resizeclient_frame split: prod.splits)

lemma frame_on_trans1:
  assumes "frame_on {c} a b" and "frame_on {c} b d"
  shows "frame_on {c} a d"
  using frame_on_trans [OF assms] by simp

lemma fold_resize_frame:
  "frame_on {c} st (fold (\<lambda>t s. resize E s c (fx t) (fy t) w h i) ts st)"
proof (induction ts arbitrary: st)
  case Nil
  show ?case by simp
next
  case (Cons t ts)
  have "frame_on {c} st (resize E st c (fx t) (fy t) w h i)"
    by (rule resize_frame)
  from frame_on_trans1 [OF this Cons.IH] show ?case by simp
qed

lemma anim_frames_frame: "frame_on {c} st (anim_frames E c ox oy x y w h frames st)"
  unfolding anim_frames_def by (rule fold_resize_frame)


lemmas animateclient_induct = animateclient.raw_induct
      [where xa = "((((((((E, st), c), x), y), w), h), frames), resetpos)", simplified,
       rotated 1, consumes 1, case_names step] for E st c x y w h frames resetpos

lemma animateclient_frame:
  assumes "animateclient E st c x y w h frames resetpos = Some st'"
  shows "frame_on {c} st st'"
  using assms
proof (induction rule: animateclient_induct)
  case (step f E st c x y w h frames resetpos Ea)
  let ?wd = "if w \<noteq> 0 then w else cw (heap_c st c)"
  let ?ht = "if h \<noteq> 0 then h else ch (heap_c st c)"
  from step(2) obtain s1 where
    s1: "(if anim_far st c x y w h
          then if anim_inplace st c x y
               then f E st c (cx (heap_c st c) + (?wd - cw (heap_c st c)))
                      (cy (heap_c st c) + (?ht - ch (heap_c st c))) 0 0 frames False
               else Some (anim_frames E c (cx (heap_c st c)) (cy (heap_c st c)) x y ?wd ?ht frames st)
          else Some st) = Some s1"
    and ea: "Ea = (if resetpos
                   then resize E s1 c (cx (heap_c st c)) (cy (heap_c st c)) ?wd ?ht False
                   else resize E s1 c x y ?wd ?ht True)"
    by (auto simp add: Let_def bind_eq_Some_conv)
  have "frame_on {c} st s1"
    using s1 step(1) by (auto simp add: anim_frames_frame split: if_splits)
  moreover have "frame_on {c} s1 Ea"
    unfolding ea by (simp add: resize_frame)
  ultimately show ?case by (rule frame_on_trans1)
qed

lemma animateclient_frame_arr:
  "animateclient E st c x y w h frames resetpos = Some st' \<Longrightarrow> frame_arr st st'"
  by (rule frame_on_arr) (rule animateclient_frame)

lemma tile_loop_frame:
  "tile_loop E m n mwd fc i myo tyo cs st = Some st' \<Longrightarrow> frame_arr st st'"
proof (induction E m n mwd fc i myo tyo cs st arbitrary: st' rule: tile_loop.induct)
  case (1 E m n mwd framecount i myo tyo st)
  then show ?case by simp
next
  case (2 E m n mwd framecount i myo tyo c rest st)
  show ?case
  proof (cases "i < u32 (nmaster (heap_m st m))")
    case True
    with "2.prems" obtain h st1 where
      h: "udiv (wh (heap_m st m) - myo) (min n (u32 (nmaster (heap_m st m))) - i) = Some h"
      and a: "animateclient E st c (wx (heap_m st m)) (s32 (wy (heap_m st m) + myo))
              (s32 (mwd - 2 * bw (heap_c st c))) (s32 (h - 2 * bw (heap_c st c)))
              framecount False = Some st1"
      and r: "tile_loop E m n mwd framecount (u32 (i + 1))
              (if u32 (myo + HEIGHT (heap_c st1 c)) < u32 (wh (heap_m st1 m))
               then u32 (myo + HEIGHT (heap_c st1 c)) else myo)
              tyo (nexttiled st1 rest) st1 = Some st'"
      by (auto simp add: bind_eq_Some_conv)
    from "2.IH"(1) [OF True h a r] animateclient_frame_arr [OF a]
    show ?thesis by (rule frame_arr_trans [rotated])
  next
    case False
    with "2.prems" obtain h st1 where
      h: "udiv (wh (heap_m st m) - tyo) (n - i) = Some h"
      and a: "animateclient E st c (s32 (wx (heap_m st m) + mwd)) (s32 (wy (heap_m st m) + tyo))
              (s32 (ww (heap_m st m) - mwd - 2 * bw (heap_c st c)))
              (s32 (h - 2 * bw (heap_c st c))) framecount False = Some st1"
      and r: "tile_loop E m n mwd framecount (u32 (i + 1)) myo
              (if u32 (tyo + HEIGHT (heap_c st1 c)) < u32 (wh (heap_m st1 m))
               then u32 (tyo + HEIGHT (heap_c st1 c)) else tyo)
              (nexttiled st1 rest) st1 = Some st'"
      by (auto simp add: bind_eq_Some_conv)
    from "2.IH"(2) [OF False h a r] animateclient_frame_arr [OF a]
    show ?thesis by (rule frame_arr_trans [rotated])
  qed
qed

lemma tile_frame: "tile E m st = Some st' \<Longrightarrow> frame_arr st st'"
  by (auto simp add: tile_def Let_def split: if_splits dest: tile_loop_frame)

lemma monocle_loop_frame:
  "monocle_loop E m cs st = Some st' \<Longrightarrow> frame_arr st st'"
proof (induction E m cs st arbitrary: st' rule: monocle_loop.induct)
  case (1 E m st)
  then show ?case by simp
next
  case (2 E m c rest st)
  from "2.prems" obtain st1 where
    a: "animateclient E st c (wx (heap_m st m)) (wy (heap_m st m))
         (ww (heap_m st m) - 2 * bw (heap_c st c))
         (wh (heap_m st m) - 2 * bw (heap_c st c)) 10 False = Some st1"
    and r: "monocle_loop E m (nexttiled st1 rest) st1 = Some st'"
    by (auto simp add: bind_eq_Some_conv)
  from "2.IH" [OF a r] animateclient_frame_arr [OF a]
  show ?case by (rule frame_arr_trans [rotated])
qed

lemma upd_ltsymbol_frame:
  "frame_arr st (st\<lparr>heap_m := (heap_m st)(m := (heap_m st m)\<lparr>ltsymbol := s\<rparr>)\<rparr>)"
  by (simp add: frame_arr_def globals_eq_def symbol_eq_def)

lemma monocle_frame: "monocle E m st = Some st' \<Longrightarrow> frame_arr st st'"
  unfolding monocle_def Let_def
  by (auto split: if_splits dest!: monocle_loop_frame
      intro: frame_arr_trans [OF upd_ltsymbol_frame])

lemma bstack_loop_frame:
  "bstack_loop E m n mhd tw ty i mxo tx cs st = Some st' \<Longrightarrow> frame_arr st st'"
proof (induction E m n mhd tw ty i mxo tx cs st arbitrary: st' rule: bstack_loop.induct)
  case (1 E m n mhd tw ty i mxo tx st)
  then show ?case by simp
next
  case (2 E m n mhd tw ty i mxo tx c rest st)
  show ?case
  proof (cases "i < u32 (nmaster (heap_m st m))")
    case True
    with "2.prems" obtain w st1 where
      w: "udiv (ww (heap_m st m) - mxo) (min n (u32 (nmaster (heap_m st m))) - i) = Some w"
      and a: "animateclient E st c (wx (heap_m st m) + mxo) (wy (heap_m st m))
                (s32 w - 2 * bw (heap_c st c)) (mhd - 2 * bw (heap_c st c)) 10 False = Some st1"
      and r: "bstack_loop E m n mhd tw ty (u32 (i + 1)) (mxo + WIDTH (heap_c st1 c)) tx
                (nexttiled st1 rest) st1 = Some st'"
      by (auto simp add: bind_eq_Some_conv)
    from "2.IH"(1) [OF True w a r] animateclient_frame_arr [OF a]
    show ?thesis by (rule frame_arr_trans [rotated])
  next
    case False
    with "2.prems" obtain st1 where
      a: "animateclient E st c tx ty (tw - 2 * bw (heap_c st c))
            (wh (heap_m st m) - mhd - 2 * bw (heap_c st c)) 10 False = Some st1"
      and r: "bstack_loop E m n mhd tw ty (u32 (i + 1)) mxo
                (if tw \<noteq> ww (heap_m st1 m) then tx + WIDTH (heap_c st1 c) else tx)
                (nexttiled st1 rest) st1 = Some st'"
      by (auto simp add: bind_eq_Some_conv)
    from "2.IH"(2) [OF False a r] animateclient_frame_arr [OF a]
    show ?thesis by (rule frame_arr_trans [rotated])
  qed
qed

lemma bstack_frame: "bstack E m st = Some st' \<Longrightarrow> frame_arr st st'"
  by (auto simp add: bstack_def Let_def bind_eq_Some_conv split: if_splits dest: bstack_loop_frame)

lemma bstackhoriz_loop_frame:
  "bstackhoriz_loop E m n mhd th tx i mxo ty cs st = Some st' \<Longrightarrow> frame_arr st st'"
proof (induction E m n mhd th tx i mxo ty cs st arbitrary: st' rule: bstackhoriz_loop.induct)
  case (1 E m n mhd th tx i mxo ty st)
  then show ?case by simp
next
  case (2 E m n mhd th tx i mxo ty c rest st)
  show ?case
  proof (cases "i < u32 (nmaster (heap_m st m))")
    case True
    with "2.prems" obtain w st1 where
      w: "udiv (ww (heap_m st m) - mxo) (min n (u32 (nmaster (heap_m st m))) - i) = Some w"
      and a: "animateclient E st c (wx (heap_m st m) + mxo) (wy (heap_m st m))
                (s32 w - 2 * bw (heap_c st c)) (mhd - 2 * bw (heap_c st c)) 10 False = Some st1"
      and r: "bstackhoriz_loop E m n mhd th tx (u32 (i + 1)) (mxo + WIDTH (heap_c st1 c)) ty
                (nexttiled st1 rest) st1 = Some st'"
      by (auto simp add: bind_eq_Some_conv)
    from "2.IH"(1) [OF True w a r] animateclient_frame_arr [OF a]
    show ?thesis by (rule frame_arr_trans [rotated])
  next
    case False
    with "2.prems" obtain st1 where
      a: "animateclient E st c tx ty (ww (heap_m st m) - 2 * bw (heap_c st c))
            (th - 2 * bw (heap_c st c)) 10 False = Some st1"
      and r: "bstackhoriz_loop E m n mhd th tx (u32 (i + 1)) mxo
                (if th \<noteq> wh (heap_m st1 m) then ty + HEIGHT (heap_c st1 c) else ty)
                (nexttiled st1 rest) st1 = Some st'"
      by (auto simp add: bind_eq_Some_conv)
    from "2.IH"(2) [OF False a r] animateclient_frame_arr [OF a]
    show ?thesis by (rule frame_arr_trans [rotated])
  qed
qed

lemma bstackhoriz_frame: "bstackhoriz E m st = Some st' \<Longrightarrow> frame_arr st st'"
  by (auto simp add: bstackhoriz_def Let_def bind_eq_Some_conv split: if_splits
      dest: bstackhoriz_loop_frame)

lemma resize_frame_arr: "frame_arr st (resize E st c x y w h i)"
  by (rule frame_on_arr) (rule resize_frame)

lemma showhide_frame: "frame_arr st (showhide E cs st)"
proof (induction cs arbitrary: st)
  case Nil
  show ?case by simp
next
  case (Cons c cs)
  show ?case
    by (auto simp add: Let_def intro: Cons.IH frame_arr_trans [OF resize_frame_arr Cons.IH])
qed

lemma showhide_all_frame: "frame_arr st (showhide_all E ms st)"
proof (induction ms arbitrary: st)
  case Nil
  show ?case by simp
next
  case (Cons m ms)
  show ?case
    by (simp add: frame_arr_trans [OF showhide_frame Cons.IH])
qed

lemma arrangemon_frame: "arrangemon E m st = Some st' \<Longrightarrow> frame_arr st st'"
  unfolding arrangemon_def Let_def
  by (auto split: option.splits arrange_fn.splits
      dest!: tile_frame monocle_frame bstack_frame bstackhoriz_frame
      intro: upd_ltsymbol_frame frame_arr_trans [OF upd_ltsymbol_frame])

lemma arrangemon_all_frame: "arrangemon_all E ms st = Some st' \<Longrightarrow> frame_arr st st'"
proof (induction ms arbitrary: st)
  case Nil
  then show ?case by simp
next
  case (Cons m ms)
  then show ?case
    by (auto simp add: bind_eq_Some_conv dest!: arrangemon_frame intro: frame_arr_trans)
qed

lemma resetcursor_frame: "frame_arr st (resetcursor st)"
  by (simp add: resetcursor_def frame_arr_def globals_eq_def)

lemma arrange_frame: "arrange E mo st = Some st' \<Longrightarrow> frame_arr st st'"
  unfolding arrange_def Let_def
  by (auto split: option.splits dest!: arrangemon_frame arrangemon_all_frame
      intro: frame_arr_trans [OF resetcursor_frame] frame_arr_trans [OF showhide_frame]
        frame_arr_trans [OF showhide_all_frame])

subsection \<open>view\<close>

lemma view_eq_refl [simp]: "view_eq M M"
  by (simp add: view_eq_def)

lemma view_eq_trans: "view_eq M M' \<Longrightarrow> view_eq M' M'' \<Longrightarrow> view_eq M M''"
  by (simp add: view_eq_def)

lemma symbol_eq_view_eq: "symbol_eq M M' \<Longrightarrow> view_eq M M'"
  by (simp add: symbol_eq_def view_eq_def)

lemma frame_arr_view_eq: "frame_arr st st' \<Longrightarrow> view_eq (heap_m st m) (heap_m st' m)"
  by (rule symbol_eq_view_eq) (rule frame_arr_monitor)

lemma frame_arr_selmon: "frame_arr st st' \<Longrightarrow> selmon st' = selmon st"
  by (simp add: frame_arr_def globals_eq_def)

lemma focus_on_view_eq: "view_eq (heap_m st m) (heap_m (focus_on c st) m)"
  by (simp add: focus_on_def Let_def attachstack_def detachstack_def seturgent_def
      upd_mon_def upd_client_def view_eq_def)

lemma focus_finish_view_eq: "view_eq (heap_m st m) (heap_m (focus_finish co st) m)"
  by (simp add: focus_finish_def Let_def upd_mon_def view_eq_def split: option.splits)

lemma focus_view_eq: "view_eq (heap_m st m) (heap_m (focus co st) m)"
proof -
  have "view_eq (heap_m (resetcursor st) m) (heap_m (focus co st) m)"
    unfolding focus_def Let_def
    by (auto split: option.splits intro: focus_finish_view_eq
        view_eq_trans [OF focus_on_view_eq focus_finish_view_eq])
  then show ?thesis by (simp add: resetcursor_props)
qed

lemma updatebarpos_view_eq: "view_eq (heap_m st m') (heap_m (updatebarpos m st) m')"
  by (simp add: updatebarpos_def upd_mon_def view_eq_def Let_def)

lemma updatebarpos_selmon: "selmon (updatebarpos m st) = selmon st"
  by (simp add: updatebarpos_def upd_mon_def)

lemma togglebar_result:
  assumes "togglebar E st = Some st'"
    and "showbar (heap_m st (selmon st)) \<noteq>
         showbars (ptag (heap_m st (selmon st))) (curtag (ptag (heap_m st (selmon st))))"
  shows "selmon st' = selmon st"
    and "view_eq (settle_bar (heap_m st (selmon st))) (heap_m st' (selmon st))"
    and "m \<noteq> selmon st \<Longrightarrow> view_eq (heap_m st m) (heap_m st' m)"
proof -
  let ?st1 = "upd_mon (selmon st) (\<lambda>M. M\<lparr>showbar := \<not> showbar M,
                   ptag := (ptag M)\<lparr>showbars := (showbars (ptag M))(curtag (ptag M) := \<not> showbar M)\<rparr>\<rparr>) st"
  have sm: "selmon ?st1 = selmon st"
    by (simp add: upd_mon_def)
  from assms(1) have a: "arrange E (Some (selmon st)) (updatebarpos (selmon st) ?st1) = Some st'"
    by (simp add: togglebar_def Let_def sm)
  then have f: "frame_arr (updatebarpos (selmon st) ?st1) st'"
    by (rule arrange_frame)
  show "selmon st' = selmon st"
    using frame_arr_selmon [OF f] by (simp add: updatebarpos_selmon sm)
  have v: "view_eq (heap_m ?st1 m) (heap_m st' m)" for m
    by (rule view_eq_trans [OF updatebarpos_view_eq frame_arr_view_eq [OF f]])
  have "heap_m ?st1 (selmon st) = settle_bar (heap_m st (selmon st))"
    using assms(2) by (simp add: upd_mon_def settle_bar_def)
  with v [of "selmon st"] show "view_eq (settle_bar (heap_m st (selmon st))) (heap_m st' (selmon st))"
    by simp
  show "view_eq (heap_m st m) (heap_m st' m)" if "m \<noteq> selmon st"
    using v [of m] that by (simp add: upd_mon_def)
qed

text \<open>The monitor that view selects is the one it started on, up to focus.\<close>
lemma view_result:
  assumes "view E ui st = Some st'"
  shows "\<exists>M1. view_tags E ui (heap_m st (selmon st)) = Some M1 \<and>
              view_eq (settle_bar (load_pertag M1)) (heap_m st' (selmon st))"
proof -
  from assms obtain M1 where
    M1: "view_tags E ui (heap_m st (selmon st)) = Some M1"
    by (auto simp add: view_def bind_eq_Some_conv)
  define st1 where "st1 = st\<lparr>heap_m := (heap_m st)(selmon st := load_pertag M1)\<rparr>"
  have sm1: "selmon st1 = selmon st" and hm1: "heap_m st1 (selmon st) = load_pertag M1"
    by (simp_all add: st1_def)
  from assms M1 obtain st2 where
    st2: "view_bar E st1 = Some st2"
    and fin: "arrange E (Some (selmon (focus None st2))) (focus None st2) = Some st'"
    by (auto simp add: view_def bind_eq_Some_conv Let_def st1_def)
  have v2: "view_eq (settle_bar (load_pertag M1)) (heap_m st2 (selmon st))"
  proof (cases "showbar (heap_m st1 (selmon st1)) \<noteq>
             showbars (ptag (heap_m st1 (selmon st1))) (curtag (ptag (heap_m st1 (selmon st1))))")
    case True
    with st2 have "togglebar E st1 = Some st2" by (simp add: view_bar_def)
    from togglebar_result(2) [OF this True] show ?thesis
      by (simp add: sm1 hm1)
  next
    case False
    with st2 have "st2 = st1" by (simp add: view_bar_def)
    with False show ?thesis
      by (simp add: sm1 hm1 settle_bar_def)
  qed
  have "view_eq (heap_m st2 (selmon st)) (heap_m (focus None st2) (selmon st))"
    by (rule focus_view_eq)
  moreover have "view_eq (heap_m (focus None st2) (selmon st)) (heap_m st' (selmon st))"
    by (rule frame_arr_view_eq [OF arrange_frame [OF fin]])
  ultimately have "view_eq (settle_bar (load_pertag M1)) (heap_m st' (selmon st))"
    using v2 by (blast intro: view_eq_trans)
  with M1 show ?thesis by blast
qed

lemma lowbit_Some:
  "lowbit ui i = Some k \<Longrightarrow> i \<le> k \<and> k < 31 \<and> bit ui k \<and> (\<forall>j. i \<le> j \<and> j < k \<longrightarrow> \<not> bit ui j)"
proof (induction ui i rule: lowbit.induct)
  case (1 ui i)
  show ?case
  proof (cases "31 \<le> i")
    case True
    with "1.prems" show ?thesis by (simp add: lowbit.simps)
  next
    case False
    show ?thesis
    proof (cases "bit ui i")
      case True
      with False "1.prems" show ?thesis by (auto simp add: lowbit.simps [of ui i])
    next
      case nb: False
      with False "1.prems" have "lowbit ui (Suc i) = Some k"
        by (simp add: lowbit.simps [of ui i])
      from "1.IH" [OF False nb this] have k: "Suc i \<le> k" "k < 31" "bit ui k"
        and n: "\<And>j. Suc i \<le> j \<Longrightarrow> j < k \<Longrightarrow> \<not> bit ui j"
        by auto
      have "\<not> bit ui j" if "i \<le> j" "j < k" for j
      proof (cases "j = i")
        case True
        with nb show ?thesis by simp
      next
        case False
        with that have "Suc i \<le> j" by simp
        from n [OF this that(2)] show ?thesis .
      qed
      with k show ?thesis by simp
    qed
  qed
qed

lemma view_tags_curtag:
  assumes "view_tags E ui M = Some M1" and "ui AND TAGMASK E \<noteq> 0" and "ui \<noteq> NOT 0"
  shows "\<exists>i. lowbit ui 0 = Some i \<and> curtag (ptag M1) = i + 1 \<and> prevtag (ptag M1) = curtag (ptag M)"
  using assms
  by (auto simp add: view_tags_def Let_def bind_eq_Some_conv)

lemma load_pertag_ptag: "ptag (load_pertag M) = ptag M"
  by (simp add: load_pertag_def Let_def)

lemma settle_bar_tags:
  "curtag (ptag (settle_bar M)) = curtag (ptag M)"
  "prevtag (ptag (settle_bar M)) = prevtag (ptag M)"
  by (simp_all add: settle_bar_def)

text \<open>The tag index that \<open>view\<close> leaves when it returns.\<close>

lemma view_curtag_step:
  assumes "view E ui st = Some st'" and "ui AND TAGMASK E \<noteq> 0" and "ui \<noteq> NOT 0"
  shows "\<exists>i. bit ui i \<and> (\<forall>j<i. \<not> bit ui j) \<and>
             curtag (ptag (heap_m st' (selmon st))) = i + 1 \<and>
             prevtag (ptag (heap_m st' (selmon st))) = curtag (ptag (heap_m st (selmon st)))"
proof -
  from view_result [OF assms(1)] obtain M1 where
    M1: "view_tags E ui (heap_m st (selmon st)) = Some M1"
    and v: "view_eq (settle_bar (load_pertag M1)) (heap_m st' (selmon st))"
    by blast
  from view_tags_curtag [OF M1 assms(2,3)] obtain i where
    i: "lowbit ui 0 = Some i" "curtag (ptag M1) = i + 1"
       "prevtag (ptag M1) = curtag (ptag (heap_m st (selmon st)))"
    by blast
  from v have "ptag (heap_m st' (selmon st)) = ptag (settle_bar (load_pertag M1))"
    by (simp add: view_eq_def)
  then have "curtag (ptag (heap_m st' (selmon st))) = i + 1"
    and "prevtag (ptag (heap_m st' (selmon st))) = curtag (ptag (heap_m st (selmon st)))"
    using i by (simp_all add: settle_bar_tags load_pertag_ptag)
  moreover from lowbit_Some [OF i(1)] have "bit ui i" "\<forall>j<i. \<not> bit ui j"
    by simp_all
  ultimately show ?thesis by blast
qed


lemma arrangemon_empty:
  assumes "clients (heap_m st m) = []"
  shows "arrangemon E m st \<noteq> None"
proof -
  let ?st1 = "st\<lparr>heap_m := (heap_m st)(m := (heap_m st m)
      \<lparr>ltsymbol := take 16 (symbol (layouts E (lt (heap_m st m) (sellt (heap_m st m)))))\<rparr>)\<rparr>"
  have c: "clients (heap_m ?st1 m) = []"
    using assms by simp
  have "tile E m ?st1 \<noteq> None"
    using c by (simp add: tile_def Let_def nexttiled_def del: fun_upd_apply)
  moreover have "monocle E m ?st1 \<noteq> None"
    using c by (simp add: monocle_def Let_def nexttiled_def del: fun_upd_apply)
  moreover have "bstack E m ?st1 \<noteq> None"
    using c by (simp add: bstack_def Let_def nexttiled_def del: fun_upd_apply)
  moreover have "bstackhoriz E m ?st1 \<noteq> None"
    using c by (simp add: bstackhoriz_def Let_def nexttiled_def del: fun_upd_apply)
  ultimately show ?thesis
    unfolding arrangemon_def Let_def
    by (simp split: option.splits arrange_fn.splits del: fun_upd_apply)
qed

lemma arrange_empty:
  assumes "clients (heap_m st m) = []" and "stack (heap_m st m) = []"
  shows "arrange E (Some m) st \<noteq> None"
  using assms arrangemon_empty [of "resetcursor st" m E]
  by (simp add: arrange_def Let_def resetcursor_props)

lemma focus_empty:
  assumes "stack (heap_m st (selmon st)) = []"
  shows "focus None st = focus_finish None (resetcursor st)"
  using assms by (simp add: focus_def focus_cand_def Let_def resetcursor_props)

lemma focus_finish_lists:
  "selmon (focus_finish co st) = selmon st"
  "clients (heap_m (focus_finish co st) m) = clients (heap_m st m)"
  "stack (heap_m (focus_finish co st) m) = stack (heap_m st m)"
  by (auto simp add: focus_finish_def Let_def upd_mon_def split: option.splits)

lemma symbol_eq_lists:
  "symbol_eq M M' \<Longrightarrow> clients M' = clients M \<and> stack M' = stack M"
  by (simp add: symbol_eq_def)

lemma togglebar_empty:
  assumes "clients (heap_m st (selmon st)) = []" and "stack (heap_m st (selmon st)) = []"
  shows "togglebar E st \<noteq> None"
  unfolding togglebar_def Let_def
  by (rule arrange_empty)
     (simp_all add: assms updatebarpos_def upd_mon_def Let_def)

lemma view_bar_empty:
  assumes "clients (heap_m st (selmon st)) = []" and "stack (heap_m st (selmon st)) = []"
  shows "\<exists>st2. view_bar E st = Some st2 \<and> selmon st2 = selmon st \<and>
           clients (heap_m st2 (selmon st)) = [] \<and> stack (heap_m st2 (selmon st)) = []"
proof (cases "showbar (heap_m st (selmon st)) \<noteq>
         showbars (ptag (heap_m st (selmon st))) (curtag (ptag (heap_m st (selmon st))))")
  case True
  from togglebar_empty [OF assms] obtain st2 where t: "togglebar E st = Some st2"
    by blast
  let ?st1 = "upd_mon (selmon st) (\<lambda>M. M\<lparr>showbar := \<not> showbar M,
                   ptag := (ptag M)\<lparr>showbars := (showbars (ptag M))(curtag (ptag M) := \<not> showbar M)\<rparr>\<rparr>) st"
  from t have "arrange E (Some (selmon st)) (updatebarpos (selmon st) ?st1) = Some st2"
    by (simp add: togglebar_def Let_def upd_mon_def)
  then have f: "frame_arr (updatebarpos (selmon st) ?st1) st2"
    by (rule arrange_frame)
  have "clients (heap_m st2 (selmon st)) = clients (heap_m (updatebarpos (selmon st) ?st1) (selmon st))"
    and "stack (heap_m st2 (selmon st)) = stack (heap_m (updatebarpos (selmon st) ?st1) (selmon st))"
    using symbol_eq_lists [OF frame_arr_monitor [OF f, of "selmon st"]] by simp_all
  then have "clients (heap_m st2 (selmon st)) = []" "stack (heap_m st2 (selmon st)) = []"
    using assms by (simp_all add: updatebarpos_def upd_mon_def Let_def)
  moreover have "selmon st2 = selmon st"
    using togglebar_result(1) [OF t True] .
  ultimately show ?thesis
    using t True by (simp add: view_bar_def)
next
  case False
  with assms show ?thesis by (simp add: view_bar_def)
qed

lemma view_empty:
  assumes "clients (heap_m st (selmon st)) = []" and "stack (heap_m st (selmon st)) = []"
    and "view_tags E ui (heap_m st (selmon st)) = Some M1"
    and "clients M1 = []" and "stack M1 = []"
  shows "view E ui st \<noteq> None"
proof -
  let ?st1 = "st\<lparr>heap_m := (heap_m st)(selmon st := load_pertag M1)\<rparr>"
  have "clients (heap_m ?st1 (selmon ?st1)) = []" "stack (heap_m ?st1 (selmon ?st1)) = []"
    using assms(4,5) by (simp_all add: load_pertag_def Let_def)
  from view_bar_empty [OF this] obtain st2 where
    st2: "view_bar E ?st1 = Some st2" "selmon st2 = selmon st"
      "clients (heap_m st2 (selmon st)) = []" "stack (heap_m st2 (selmon st)) = []"
    by auto
  have f: "focus None st2 = focus_finish None (resetcursor st2)"
    by (rule focus_empty) (simp add: st2)
  have "arrange E (Some (selmon (focus None st2))) (focus None st2) \<noteq> None"
    by (rule arrange_empty)
       (simp_all add: f focus_finish_lists resetcursor_props st2)
  with assms(3) st2(1) show ?thesis
    by (simp add: view_def Let_def)
qed

lemma view_tags_lists:
  "view_tags E ui M = Some M1 \<Longrightarrow> clients M1 = clients M \<and> stack M1 = stack M"
  by (auto simp add: view_tags_def Let_def bind_eq_Some_conv split: if_splits)

lemma ex_vt: "view_tags ex_env 6 ex_monitor \<noteq> None"
  by (simp add: view_tags_def TAGMASK_def lowbit.simps Let_def ex_defs)

lemma xor1_nat: "(s XOR 1) XOR 1 = (s::nat)" "s XOR 1 \<noteq> (s::nat)"
proof -
  show "(s XOR 1) XOR 1 = s"
    by (simp add: xor.assoc)
  show "s XOR 1 \<noteq> s"
  proof
    assume "s XOR 1 = s"
    then have "(s XOR s) XOR 1 = s XOR s"
      by (metis xor.assoc xor.commute)
    then show False by simp
  qed
qed

lemma lt2_cases: "(s::nat) < 2 \<Longrightarrow> (s = 0 \<and> s XOR 1 = 1) \<or> (s = 1 \<and> s XOR 1 = 0)"
  by (cases "s = 0") (auto simp add: less_2_cases_iff)

lemma view_mon_result:
  assumes "view E ui st = Some st'"
  shows "\<exists>M'. view_mon E ui (heap_m st (selmon st)) = Some M' \<and> view_eq M' (heap_m st' (selmon st))"
  using view_result [OF assms] by (auto simp add: view_mon_def)

lemma view_tags_cong:
  assumes "view_eq M M'"
  shows "rel_option view_eq (view_tags E ui M) (view_tags E ui M')"
proof -
  from assms have e: "seltags M' = seltags M" "tagset M' = tagset M" "ptag M' = ptag M"
    "nmaster M' = nmaster M" "mfact M' = mfact M" "sellt M' = sellt M" "lt M' = lt M"
    "showbar M' = showbar M"
    by (simp_all add: view_eq_def)
  show ?thesis
    by (cases "lowbit ui 0") (simp_all add: view_tags_def Let_def e view_eq_def)
qed

lemma load_pertag_cong: "view_eq M M' \<Longrightarrow> view_eq (load_pertag M) (load_pertag M')"
  by (simp add: view_eq_def load_pertag_def Let_def)

lemma settle_bar_cong: "view_eq M M' \<Longrightarrow> view_eq (settle_bar M) (settle_bar M')"
  by (simp add: view_eq_def settle_bar_def)

lemma view_mon_cong:
  assumes "view_eq M M'"
  shows "rel_option view_eq (view_mon E ui M) (view_mon E ui M')"
  using view_tags_cong [OF assms, of E ui]
  by (auto simp add: view_mon_def option.rel_map
      intro: settle_bar_cong load_pertag_cong elim!: option.rel_mono_strong)

lemma view_tags_fields:
  assumes "view_tags E ui M = Some T"
  shows "seltags T = seltags M XOR 1"
    and "tagset T (seltags M) = tagset M (seltags M)"
    and "prevtag (ptag T) = curtag (ptag M)"
    and "nmasters (ptag T) = nmasters (ptag M)" and "mfacts (ptag T) = mfacts (ptag M)"
    and "sellts (ptag T) = sellts (ptag M)" and "ltidxs (ptag T) = ltidxs (ptag M)"
    and "showbars (ptag T) = showbars (ptag M)"
    and "lt T = lt M" and "showbar T = showbar M"
    and "ui AND TAGMASK E = 0 \<Longrightarrow> curtag (ptag T) = prevtag (ptag M)"
  using assms xor1_nat(2) [of "seltags M"]
  by (auto simp add: view_tags_def Let_def bind_eq_Some_conv split: if_splits)

lemma load_pertag_fields:
  "ptag (load_pertag T) = ptag T"
  "seltags (load_pertag T) = seltags T"
  "tagset (load_pertag T) = tagset T"
  "showbar (load_pertag T) = showbar T"
  "nmaster (load_pertag T) = nmasters (ptag T) (curtag (ptag T))"
  "mfact (load_pertag T) = mfacts (ptag T) (curtag (ptag T))"
  "sellt (load_pertag T) = sellts (ptag T) (curtag (ptag T))"
  by (simp_all add: load_pertag_def Let_def)

lemma load_pertag_lt:
  assumes "sellts (ptag T) (curtag (ptag T)) < 2"
  shows "lt (load_pertag T) 0 = ltidxs (ptag T) (curtag (ptag T)) 0"
    and "lt (load_pertag T) 1 = ltidxs (ptag T) (curtag (ptag T)) 1"
  using lt2_cases [OF assms]
  by (auto simp add: load_pertag_def Let_def)

lemma settle_bar_fields:
  "showbar (settle_bar L) = showbars (ptag L) (curtag (ptag L))"
  "showbars (ptag (settle_bar L)) = showbars (ptag L)"
  "curtag (ptag (settle_bar L)) = curtag (ptag L)"
  "prevtag (ptag (settle_bar L)) = prevtag (ptag L)"
  "nmasters (ptag (settle_bar L)) = nmasters (ptag L)"
  "mfacts (ptag (settle_bar L)) = mfacts (ptag L)"
  "sellts (ptag (settle_bar L)) = sellts (ptag L)"
  "ltidxs (ptag (settle_bar L)) = ltidxs (ptag L)"
  "seltags (settle_bar L) = seltags L" "tagset (settle_bar L) = tagset L"
  "nmaster (settle_bar L) = nmaster L" "mfact (settle_bar L) = mfact L"
  "sellt (settle_bar L) = sellt L" "lt (settle_bar L) = lt L"
  by (auto simp add: settle_bar_def)

lemma view_mon_roundtrip:
  assumes sync: "in_sync M" and s2: "sellt M < 2"
    and v1: "view_mon E ui M = Some M1"
    and v2: "view_mon E ui2 M1 = Some M2"
    and bk: "ui2 AND TAGMASK E = 0"
  shows "tagset M2 (seltags M2) = tagset M (seltags M) \<and>
         curtag (ptag M2) = curtag (ptag M) \<and>
         nmaster M2 = nmaster M \<and> mfact M2 = mfact M \<and> sellt M2 = sellt M \<and>
         lt M2 0 = lt M 0 \<and> lt M2 1 = lt M 1 \<and> showbar M2 = showbar M"
proof -
  from v1 obtain T1 where T1: "view_tags E ui M = Some T1"
    and M1: "M1 = settle_bar (load_pertag T1)"
    by (auto simp add: view_mon_def)
  from v2 obtain T2 where T2: "view_tags E ui2 M1 = Some T2"
    and M2: "M2 = settle_bar (load_pertag T2)"
    by (auto simp add: view_mon_def)
  note f1 = view_tags_fields [OF T1]
  note f2 = view_tags_fields [OF T2]
  let ?t = "curtag (ptag M)"
  have p1: "prevtag (ptag M1) = ?t"
    by (simp add: M1 settle_bar_fields load_pertag_fields f1)
  have c2: "curtag (ptag T2) = ?t"
    using f2(11) [OF bk] p1 by simp
  have arr: "nmasters (ptag T2) = nmasters (ptag M)" "mfacts (ptag T2) = mfacts (ptag M)"
    "sellts (ptag T2) = sellts (ptag M)" "ltidxs (ptag T2) = ltidxs (ptag M)"
    "showbars (ptag T2) = showbars (ptag M)"
    by (simp_all add: f2 M1 settle_bar_fields load_pertag_fields f1)
  from sync have sy: "nmaster M = nmasters (ptag M) ?t" "mfact M = mfacts (ptag M) ?t"
    "sellt M = sellts (ptag M) ?t" "lt M 0 = ltidxs (ptag M) ?t 0"
    "lt M 1 = ltidxs (ptag M) ?t 1" "showbar M = showbars (ptag M) ?t"
    by (simp_all add: in_sync_def Let_def)
  have "seltags M2 = (seltags M XOR 1) XOR 1"
    by (simp only: M2 settle_bar_fields load_pertag_fields f2 M1 f1)
  then have st: "seltags M2 = seltags M"
    by (simp only: xor1_nat)
  have ts: "tagset M2 (seltags M2) = tagset M (seltags M)"
  proof -
    have "tagset M2 = tagset T2"
      by (simp add: M2 settle_bar_fields load_pertag_fields)
    moreover have "tagset T2 = tagset M1"
      using T2 bk by (auto simp add: view_tags_def Let_def)
    moreover have "tagset M1 = tagset T1"
      by (simp add: M1 settle_bar_fields load_pertag_fields)
    ultimately show ?thesis
      using f1(2) st by simp
  qed
  have s22: "sellts (ptag T2) (curtag (ptag T2)) < 2"
    using s2 sy(3) by (simp add: arr c2)
  have "curtag (ptag M2) = ?t"
    by (simp add: M2 settle_bar_fields load_pertag_fields c2)
  moreover have "nmaster M2 = nmaster M" "mfact M2 = mfact M" "sellt M2 = sellt M"
    "showbar M2 = showbar M"
    by (simp_all add: M2 settle_bar_fields load_pertag_fields c2 arr sy)
  moreover have "lt M2 0 = lt M 0" "lt M2 1 = lt M 1"
    using load_pertag_lt [OF s22] sy(4,5)
    by (simp_all add: M2 settle_bar_fields c2 arr)
  ultimately show ?thesis
    using ts by simp
qed

lemma view_twice:
  assumes v1: "view E ui st = Some st1" and sm: "selmon st1 = selmon st"
    and v2: "view E ui2 st1 = Some st2"
  shows "\<exists>M1 M2. view_mon E ui (heap_m st (selmon st)) = Some M1 \<and>
           view_mon E ui2 M1 = Some M2 \<and> view_eq M2 (heap_m st2 (selmon st))"
proof -
  from view_mon_result [OF v1] obtain M1 where
    M1: "view_mon E ui (heap_m st (selmon st)) = Some M1"
    and e1: "view_eq M1 (heap_m st1 (selmon st))"
    by blast
  from view_mon_result [OF v2] sm obtain M2' where
    M2': "view_mon E ui2 (heap_m st1 (selmon st)) = Some M2'"
    and e2: "view_eq M2' (heap_m st2 (selmon st))"
    by auto
  from view_mon_cong [OF e1, of E ui2] M2' obtain M2 where
    M2: "view_mon E ui2 M1 = Some M2" and e3: "view_eq M2 M2'"
    by (auto simp add: option_rel_Some2)
  from view_eq_trans [OF e3 e2] M1 M2 show ?thesis by blast
qed

lemma focus_selmon_owned:
  assumes "stack_owned st"
  shows "selmon (focus None st) = selmon st"
proof (cases "focus_cand None (resetcursor st)")
  case None
  then show ?thesis
    by (simp add: focus_def Let_def focus_finish_props resetcursor_props)
next
  case (Some c)
  then have "c \<in> set (stack (heap_m st (selmon st)))"
    by (auto simp add: focus_cand_def resetcursor_props find_Some_iff)
  with assms have "mon (heap_c st c) = selmon st"
    by (simp add: stack_owned_def)
  with Some show ?thesis
    by (simp add: focus_def Let_def focus_finish_props focus_on_props resetcursor_props)
qed

lemma frame_arr_stack_owned:
  assumes "frame_arr st st'" and "stack_owned st"
  shows "stack_owned st'"
proof -
  have "selmon st' = selmon st"
    using assms(1) by (rule frame_arr_selmon)
  moreover have "stack (heap_m st' m) = stack (heap_m st m)" for m
    using symbol_eq_lists [OF frame_arr_monitor [OF assms(1), of m]] by simp
  moreover have "mon (heap_c st' c) = mon (heap_c st c)" for c
    using frame_arr_client [OF assms(1), of c] by (simp add: geom_eq_def)
  ultimately show ?thesis
    using assms(2) by (simp add: stack_owned_def)
qed

lemma view_bar_stack_owned:
  assumes "view_bar E st = Some st2" and "stack_owned st"
  shows "stack_owned st2 \<and> selmon st2 = selmon st"
proof (cases "showbar (heap_m st (selmon st)) \<noteq>
         showbars (ptag (heap_m st (selmon st))) (curtag (ptag (heap_m st (selmon st))))")
  case True
  let ?st1 = "upd_mon (selmon st) (\<lambda>M. M\<lparr>showbar := \<not> showbar M,
                   ptag := (ptag M)\<lparr>showbars := (showbars (ptag M))(curtag (ptag M) := \<not> showbar M)\<rparr>\<rparr>) st"
  from assms(1) True have t: "togglebar E st = Some st2"
    by (simp add: view_bar_def)
  then have "arrange E (Some (selmon st)) (updatebarpos (selmon st) ?st1) = Some st2"
    by (simp add: togglebar_def Let_def upd_mon_def)
  then have f: "frame_arr (updatebarpos (selmon st) ?st1) st2"
    by (rule arrange_frame)
  have "stack_owned (updatebarpos (selmon st) ?st1)"
    using assms(2) by (simp add: stack_owned_def updatebarpos_def upd_mon_def Let_def)
  from frame_arr_stack_owned [OF f this] togglebar_result(1) [OF t True]
  show ?thesis by simp
next
  case False
  with assms show ?thesis by (simp add: view_bar_def)
qed

lemma view_selmon:
  assumes "view E ui st = Some st'" and "stack_owned st"
  shows "selmon st' = selmon st"
proof -
  from assms(1) obtain M1 st2 where
    M1: "view_tags E ui (heap_m st (selmon st)) = Some M1"
    and st2: "view_bar E (st\<lparr>heap_m := (heap_m st)(selmon st := load_pertag M1)\<rparr>) = Some st2"
    and fin: "arrange E (Some (selmon (focus None st2))) (focus None st2) = Some st'"
    by (auto simp add: view_def bind_eq_Some_conv Let_def)
  have "stack (load_pertag M1) = stack (heap_m st (selmon st))"
    using view_tags_lists [OF M1] by (simp add: load_pertag_def Let_def)
  with assms(2) have "stack_owned (st\<lparr>heap_m := (heap_m st)(selmon st := load_pertag M1)\<rparr>)"
    by (simp add: stack_owned_def)
  from view_bar_stack_owned [OF st2 this] have o2: "stack_owned st2" and s2: "selmon st2 = selmon st"
    by simp_all
  have "selmon st' = selmon (focus None st2)"
    using arrange_frame [OF fin] by (rule frame_arr_selmon)
  with focus_selmon_owned [OF o2] s2 show ?thesis by simp
qed

text \<open>
  The round trip of \<open>view\<close> and the back-toggle, when both calls return.
\<close>

lemma view_roundtrip_step:
  assumes "in_sync (heap_m st (selmon st))" and "sellt (heap_m st (selmon st)) < 2"
    and "stack_owned st"
    and "view E ui st = Some st1" and "view E ui2 st1 = Some st2"
    and "ui2 AND TAGMASK E = 0"
  shows "selmon st1 = selmon st \<and>
         tagset (heap_m st2 (selmon st)) (seltags (heap_m st2 (selmon st))) =
           tagset (heap_m st (selmon st)) (seltags (heap_m st (selmon st))) \<and>
         curtag (ptag (heap_m st2 (selmon st))) = curtag (ptag (heap_m st (selmon st))) \<and>
         nmaster (heap_m st2 (selmon st)) = nmaster (heap_m st (selmon st)) \<and>
         mfact (heap_m st2 (selmon st)) = mfact (heap_m st (selmon st)) \<and>
         sellt (heap_m st2 (selmon st)) = sellt (heap_m st (selmon st)) \<and>
         lt (heap_m st2 (selmon st)) 0 = lt (heap_m st (selmon st)) 0 \<and>
         lt (heap_m st2 (selmon st)) 1 = lt (heap_m st (selmon st)) 1 \<and>
         showbar (heap_m st2 (selmon st)) = showbar (heap_m st (selmon st))"
proof -
  have sm: "selmon st1 = selmon st"
    using assms(4,3) by (rule view_selmon)
  from view_twice [OF assms(4) sm assms(5)] obtain M1 M2 where
    M1: "view_mon E ui (heap_m st (selmon st)) = Some M1"
    and M2: "view_mon E ui2 M1 = Some M2"
    and e: "view_eq M2 (heap_m st2 (selmon st))"
    by blast
  from e have "seltags (heap_m st2 (selmon st)) = seltags M2"
    "tagset (heap_m st2 (selmon st)) = tagset M2" "ptag (heap_m st2 (selmon st)) = ptag M2"
    "nmaster (heap_m st2 (selmon st)) = nmaster M2" "mfact (heap_m st2 (selmon st)) = mfact M2"
    "sellt (heap_m st2 (selmon st)) = sellt M2" "lt (heap_m st2 (selmon st)) = lt M2"
    "showbar (heap_m st2 (selmon st)) = showbar M2"
    by (simp_all add: view_eq_def)
  with view_mon_roundtrip [OF assms(1,2) M1 M2 assms(6)] sm
  show ?thesis by simp
qed

lemma view_empty_post:
  assumes c: "clients (heap_m st (selmon st)) = []" and s: "stack (heap_m st (selmon st)) = []"
    and M1: "view_tags E ui (heap_m st (selmon st)) = Some M1"
  shows "\<exists>st'. view E ui st = Some st' \<and> selmon st' = selmon st \<and>
           clients (heap_m st' (selmon st)) = [] \<and> stack (heap_m st' (selmon st)) = []"
proof -
  let ?st1 = "st\<lparr>heap_m := (heap_m st)(selmon st := load_pertag M1)\<rparr>"
  have l: "clients M1 = []" "stack M1 = []"
    using view_tags_lists [OF M1] c s by simp_all
  then have "clients (heap_m ?st1 (selmon ?st1)) = []" "stack (heap_m ?st1 (selmon ?st1)) = []"
    by (simp_all add: load_pertag_def Let_def)
  from view_bar_empty [OF this] obtain st2 where
    st2: "view_bar E ?st1 = Some st2" "selmon st2 = selmon st"
      "clients (heap_m st2 (selmon st)) = []" "stack (heap_m st2 (selmon st)) = []"
    by auto
  have f: "focus None st2 = focus_finish None (resetcursor st2)"
    by (rule focus_empty) (simp add: st2)
  have fl: "selmon (focus None st2) = selmon st"
    "clients (heap_m (focus None st2) (selmon st)) = []"
    "stack (heap_m (focus None st2) (selmon st)) = []"
    by (simp_all add: f focus_finish_lists resetcursor_props st2)
  then have "arrange E (Some (selmon (focus None st2))) (focus None st2) \<noteq> None"
    by (intro arrange_empty) simp_all
  then obtain st' where fin: "arrange E (Some (selmon (focus None st2))) (focus None st2) = Some st'"
    by blast
  then have fr: "frame_arr (focus None st2) st'"
    by (rule arrange_frame)
  have "view E ui st = Some st'"
    using M1 st2(1) fin by (simp add: view_def Let_def)
  moreover have "selmon st' = selmon st"
    using frame_arr_selmon [OF fr] fl(1) by simp
  moreover have "clients (heap_m st' (selmon st)) = []" "stack (heap_m st' (selmon st)) = []"
    using symbol_eq_lists [OF frame_arr_monitor [OF fr, of "selmon st"]] fl by simp_all
  ultimately show ?thesis by blast
qed

lemma view_curtag_eval:
  assumes "view E ui st = Some st'" and "view_tags E ui (heap_m st (selmon st)) = Some M1"
  shows "curtag (ptag (heap_m st' (selmon st))) = curtag (ptag M1)"
proof -
  from view_result [OF assms(1)] assms(2)
  have "view_eq (settle_bar (load_pertag M1)) (heap_m st' (selmon st))"
    by simp
  then have "ptag (heap_m st' (selmon st)) = ptag (settle_bar (load_pertag M1))"
    by (simp add: view_eq_def)
  then show ?thesis
    by (simp add: settle_bar_tags load_pertag_ptag)
qed

lemma ex_wm_fields:
  "selmon ex_wm = 0" "heap_m ex_wm m = ex_monitor"
  by (simp_all add: ex_wm_def)

lemma ex_monitor_lists: "clients ex_monitor = []" "stack ex_monitor = []"
  by (simp_all add: ex_monitor_def)

text \<open>
  C1 as stated fails: with the current tag index 1, the view of tags 3 and 4 (mask 12)
  moves the index to 3.
\<close>

theorem view_curtag_counterexample:
  "curtag (ptag (heap_m ex_wm (selmon ex_wm))) = 1 \<and>
   view ex_env 12 ex_wm \<noteq> None \<and>
   curtag (ptag (heap_m (the (view ex_env 12 ex_wm)) (selmon ex_wm))) = 3"
proof -
  obtain M1 where M1: "view_tags ex_env 12 (heap_m ex_wm (selmon ex_wm)) = Some M1"
    and c1: "curtag (ptag M1) = 3"
    by (simp add: view_tags_def TAGMASK_def lowbit.simps Let_def ex_defs)
  have "clients (heap_m ex_wm (selmon ex_wm)) = []" "stack (heap_m ex_wm (selmon ex_wm)) = []"
    by (simp_all add: ex_wm_fields ex_monitor_lists)
  from view_empty_post [OF this M1] obtain st' where v: "view ex_env 12 ex_wm = Some st'"
    by blast
  from view_curtag_eval [OF v M1] c1 v show ?thesis
    by (simp add: ex_defs)
qed

lemma ex_fresh_fields:
  "selmon ex_fresh = 0"
  "heap_m ex_fresh m = (createmon ex_env)\<lparr>mw := 1000, mh := 800, wy := 20, ww := 1000, wh := 780\<rparr>"
  by (simp_all add: ex_fresh_def ex_wm_def)

text \<open>
  C9 as stated fails on the monitor that \<open>createmon\<close> builds: its live layout slot 0
  holds \<open>layouts[3]\<close>, its Pertag block holds \<open>layouts[0]\<close> for that slot, and the
  view of tag 2 followed by the back-toggle leaves \<open>layouts[0]\<close> in the live slot.
\<close>

theorem view_roundtrip_counterexample:
  "lt (heap_m ex_fresh (selmon ex_fresh)) 0 = 3 \<and>
   view ex_env 2 ex_fresh \<noteq> None \<and>
   view ex_env 0 (the (view ex_env 2 ex_fresh)) \<noteq> None \<and>
   lt (heap_m (the (view ex_env 0 (the (view ex_env 2 ex_fresh)))) (selmon ex_fresh)) 0 = 0"
proof -
  let ?M = "heap_m ex_fresh (selmon ex_fresh)"
  have l0: "clients ?M = []" "stack ?M = []" "lt ?M 0 = 3"
    by (simp_all add: ex_fresh_fields createmon_def)
  obtain T1 where T1: "view_tags ex_env 2 ?M = Some T1"
    by (simp add: view_tags_def TAGMASK_def lowbit.simps Let_def ex_fresh_fields ex_env_def)
  from view_empty_post [OF l0(1,2) T1] obtain st1 where
    v1: "view ex_env 2 ex_fresh = Some st1" and sm: "selmon st1 = selmon ex_fresh"
    and l1: "clients (heap_m st1 (selmon ex_fresh)) = []" "stack (heap_m st1 (selmon ex_fresh)) = []"
    by blast
  obtain T2 where T2: "view_tags ex_env 0 (heap_m st1 (selmon st1)) = Some T2"
    by (simp add: view_tags_def TAGMASK_def Let_def)
  from view_empty_post [OF _ _ T2] l1 sm obtain st2 where
    v2: "view ex_env 0 st1 = Some st2"
    by auto
  from view_twice [OF v1 sm v2] obtain M1 M2 where
    M1: "view_mon ex_env 2 ?M = Some M1" and M2: "view_mon ex_env 0 M1 = Some M2"
    and e: "view_eq M2 (heap_m st2 (selmon ex_fresh))"
    by blast
  from M1 have "M1 = the (view_mon ex_env 2 ?M)" by simp
  with M2 have "lt M2 0 = 0"
    by (auto simp add: view_mon_def view_tags_def load_pertag_def settle_bar_def TAGMASK_def
        lowbit.simps Let_def ex_fresh_fields createmon_def ex_env_def)
  with e have "lt (heap_m st2 (selmon ex_fresh)) 0 = 0"
    by (simp add: view_eq_def)
  with l0 v1 v2 show ?thesis by simp
qed

lemma ex_sync_fields:
  "selmon ex_sync = 0"
  "clients (heap_m ex_sync m) = []" "stack (heap_m ex_sync m) = []"
  "nmaster (heap_m ex_sync m) = 1" "mfact (heap_m ex_sync m) = 1 / 3"
  "sellt (heap_m ex_sync m) = 1" "lt (heap_m ex_sync m) = (\<lambda>i. i + 1)"
  "showbar (heap_m ex_sync m) = True" "seltags (heap_m ex_sync m) = 0"
  "tagset (heap_m ex_sync m) = (\<lambda>_. 1)"
  "ptag (heap_m ex_sync m) = \<lparr>curtag = 1, prevtag = 2, nmasters = (\<lambda>i. int i),
      mfacts = (\<lambda>i. 1 / (2 + of_nat i)), sellts = (\<lambda>i. i mod 2), ltidxs = (\<lambda>i j. i + j),
      showbars = (\<lambda>i. i \<noteq> 3)\<rparr>"
  by (simp_all add: ex_sync_def ex_wm_def ex_monitor_def)

subsection \<open>Layouts\<close>

lemma frame_arr_globals:
  assumes "frame_arr st st'"
  shows "bh st' = bh st" "sw st' = sw st" "sh st' = sh st" "animated st' = animated st"
    "selmon st' = selmon st" "mons st' = mons st"
  using assms by (simp_all add: frame_arr_def globals_eq_def)

lemma frame_arr_sizehints_body:
  assumes "frame_arr st st'"
  shows "sizehints_body E (heap_c st' c) w h = sizehints_body E (heap_c st c) w h"
proof -
  have "geom_eq (heap_c st c) (heap_c st' c)"
    using assms by (rule frame_arr_client)
  then have e: "mina (heap_c st' c) = mina (heap_c st c)" "maxa (heap_c st' c) = maxa (heap_c st c)"
    "basew (heap_c st' c) = basew (heap_c st c)" "baseh (heap_c st' c) = baseh (heap_c st c)"
    "incw (heap_c st' c) = incw (heap_c st c)" "inch (heap_c st' c) = inch (heap_c st c)"
    "maxw (heap_c st' c) = maxw (heap_c st c)" "maxh (heap_c st' c) = maxh (heap_c st c)"
    "minw (heap_c st' c) = minw (heap_c st c)" "minh (heap_c st' c) = minh (heap_c st c)"
    by (simp_all add: geom_eq_def)
  show ?thesis
    unfolding sizehints_body_def aspect_set_def e ..
qed

lemma frame_arr_fits:
  assumes "frame_arr st st'"
  shows "fits E st' c x y w h = fits E st c x y w h"
proof -
  have "bw (heap_c st' c) = bw (heap_c st c)"
    using frame_arr_client [OF assms, of c] by (simp add: geom_eq_def)
  then show ?thesis
    by (simp add: fits_def frame_arr_globals [OF assms] frame_arr_hints_apply [OF assms]
        frame_arr_sizehints_body [OF assms])
qed

lemma applysizehints_fits:
  assumes "fits E st c x y w h"
  shows "applysizehints E st c x y w h True =
           (x, y, w, h, x \<noteq> cx (heap_c st c) \<or> y \<noteq> cy (heap_c st c) \<or>
                         w \<noteq> cw (heap_c st c) \<or> h \<noteq> ch (heap_c st c))"
proof -
  from assms have b: "1 \<le> w" "1 \<le> h" "bh st \<le> w" "bh st \<le> h" "x \<le> sw st" "y \<le> sh st"
    "0 \<le> x + w + 2 * bw (heap_c st c)" "0 \<le> y + h + 2 * bw (heap_c st c)"
    and hb: "\<not> hints_apply E st (heap_c st c) \<or> sizehints_body E (heap_c st c) w h = (w, h)"
    by (simp_all add: fits_def)
  have m: "max 1 w = w" "max 1 h = h"
    using b by simp_all
  have cp: "clamp_pos st (heap_c st c) True x y w h = (x, y)"
    using b by (simp add: clamp_pos_def Let_def)
  show ?thesis
  proof (cases "hints_apply E st (heap_c st c)")
    case True
    with hb have "sizehints_body E (heap_c st c) w h = (w, h)" by simp
    with True b show ?thesis
      by (simp add: applysizehints_def Let_def m cp)
  next
    case False
    with b show ?thesis
      by (simp add: applysizehints_def Let_def m cp)
  qed
qed

lemma resizeclient_geom:
  "cx (heap_c (resizeclient E st c x y w h) c) = x"
  "cy (heap_c (resizeclient E st c x y w h) c) = y"
  "cw (heap_c (resizeclient E st c x y w h) c) =
     (if borderless E st c then w + 2 * bw (heap_c st c) else w)"
  "ch (heap_c (resizeclient E st c x y w h) c) =
     (if borderless E st c then h + 2 * bw (heap_c st c) else h)"
proof -
  let ?C1 = "(heap_c st c)\<lparr>oldx := cx (heap_c st c), cx := x, oldy := cy (heap_c st c), cy := y,
                 oldw := cw (heap_c st c), cw := w, oldh := ch (heap_c st c), ch := h\<rparr>"
  let ?st1 = "st\<lparr>heap_c := (heap_c st)(c := ?C1)\<rparr>"
  have "frame_on {c} st ?st1"
    by (simp add: frame_on_def geom_eq_def globals_eq_def)
  then have b: "borderless E ?st1 c = borderless E st c"
    by (intro frame_arr_borderless frame_on_arr)
  show "cx (heap_c (resizeclient E st c x y w h) c) = x"
    "cy (heap_c (resizeclient E st c x y w h) c) = y"
    "cw (heap_c (resizeclient E st c x y w h) c) =
     (if borderless E st c then w + 2 * bw (heap_c st c) else w)"
    "ch (heap_c (resizeclient E st c x y w h) c) =
     (if borderless E st c then h + 2 * bw (heap_c st c) else h)"
    unfolding resizeclient_def Let_def b by simp_all
qed

text \<open>The geometry after a \<open>resize\<close> to a rectangle that passes the size hints unchanged.\<close>

lemma resize_fits:
  assumes "fits E st c x y w h"
  shows "cx (heap_c (resize E st c x y w h True) c) = x"
    and "cy (heap_c (resize E st c x y w h True) c) = y"
    and "(cw (heap_c (resize E st c x y w h True) c) = w \<and>
          ch (heap_c (resize E st c x y w h True) c) = h) \<or>
         (borderless E st c \<and>
          cw (heap_c (resize E st c x y w h True) c) = w + 2 * bw (heap_c st c) \<and>
          ch (heap_c (resize E st c x y w h True) c) = h + 2 * bw (heap_c st c))"
proof -
  let ?chg = "x \<noteq> cx (heap_c st c) \<or> y \<noteq> cy (heap_c st c) \<or>
                         w \<noteq> cw (heap_c st c) \<or> h \<noteq> ch (heap_c st c)"
  have r: "resize E st c x y w h True = (if ?chg then resizeclient E st c x y w h else st)"
    by (simp add: resize_def applysizehints_fits [OF assms])
  show "cx (heap_c (resize E st c x y w h True) c) = x"
    "cy (heap_c (resize E st c x y w h True) c) = y"
    by (auto simp add: r resizeclient_geom)
  show "(cw (heap_c (resize E st c x y w h True) c) = w \<and>
          ch (heap_c (resize E st c x y w h True) c) = h) \<or>
         (borderless E st c \<and>
          cw (heap_c (resize E st c x y w h True) c) = w + 2 * bw (heap_c st c) \<and>
          ch (heap_c (resize E st c x y w h True) c) = h + 2 * bw (heap_c st c))"
    by (auto simp add: r resizeclient_geom)
qed

text \<open>
  With a target size other than 0 the recursion of \<open>animateclient\<close> is at most one
  call deep: the inner call has the target position that it finds the client at only
  if the size is the current one already.
\<close>

lemma animateclient_returns:
  assumes "w \<noteq> 0" and "h \<noteq> 0"
  shows "\<exists>s1. frame_on {c} st s1 \<and>
           animateclient E st c x y w h frames False = Some (resize E s1 c x y w h True)"
proof -
  let ?C = "heap_c st c"
  show ?thesis
  proof (cases "anim_far st c x y w h")
    case False
    then have "animateclient E st c x y w h frames False = Some (resize E st c x y w h True)"
      using assms by (subst animateclient.simps) (simp add: Let_def)
    then show ?thesis
      using frame_on_refl by blast
  next
    case A: True
    show ?thesis
    proof (cases "anim_inplace st c x y")
      case False
      with A have "animateclient E st c x y w h frames False =
          Some (resize E (anim_frames E c (cx ?C) (cy ?C) x y w h frames st) c x y w h True)"
        using assms by (subst animateclient.simps) (simp add: Let_def)
      then show ?thesis
        using anim_frames_frame by blast
    next
      case B: True
      let ?x2 = "cx ?C + (w - cw ?C)"
      let ?y2 = "cy ?C + (h - ch ?C)"
      from A B have "w \<noteq> cw ?C \<or> h \<noteq> ch ?C"
        by (auto simp add: anim_far_def anim_inplace_def Let_def)
      then have nb: "\<not> anim_inplace st c ?x2 ?y2"
        by (auto simp add: anim_inplace_def Let_def)
      have "\<exists>s2. frame_on {c} st s2 \<and>
              animateclient E st c ?x2 ?y2 0 0 frames False = Some s2"
      proof (cases "anim_far st c ?x2 ?y2 0 0")
        case True
        with nb have "animateclient E st c ?x2 ?y2 0 0 frames False =
            Some (resize E (anim_frames E c (cx ?C) (cy ?C) ?x2 ?y2 (cw ?C) (ch ?C) frames st)
                    c ?x2 ?y2 (cw ?C) (ch ?C) True)"
          by (subst animateclient.simps) (simp add: Let_def)
        moreover have "frame_on {c} st
            (resize E (anim_frames E c (cx ?C) (cy ?C) ?x2 ?y2 (cw ?C) (ch ?C) frames st)
                    c ?x2 ?y2 (cw ?C) (ch ?C) True)"
          by (rule frame_on_trans1 [OF anim_frames_frame resize_frame])
        ultimately show ?thesis by simp
      next
        case False
        then have "animateclient E st c ?x2 ?y2 0 0 frames False =
            Some (resize E st c ?x2 ?y2 (cw ?C) (ch ?C) True)"
          by (subst animateclient.simps) (simp add: Let_def)
        then show ?thesis
          by (simp add: resize_frame)
      qed
      then obtain s2 where s2: "frame_on {c} st s2"
        and i: "animateclient E st c ?x2 ?y2 0 0 frames False = Some s2"
        by blast
      from A B i have "animateclient E st c x y w h frames False = Some (resize E s2 c x y w h True)"
        using assms by (subst animateclient.simps) (simp add: Let_def)
      with s2 show ?thesis by blast
    qed
  qed
qed

lemma animateclient_fits:
  assumes "fits E st c x y w h"
  shows "\<exists>st'. animateclient E st c x y w h frames False = Some st' \<and> frame_on {c} st st' \<and>
           cx (heap_c st' c) = x \<and> cy (heap_c st' c) = y \<and>
           ((cw (heap_c st' c) = w \<and> ch (heap_c st' c) = h) \<or>
            (borderless E st c \<and> cw (heap_c st' c) = w + 2 * bw (heap_c st c) \<and>
             ch (heap_c st' c) = h + 2 * bw (heap_c st c)))"
proof -
  from assms have "w \<noteq> 0" "h \<noteq> 0"
    by (auto simp add: fits_def)
  from animateclient_returns [OF this] obtain s1 where
    s1: "frame_on {c} st s1"
    and a: "animateclient E st c x y w h frames False = Some (resize E s1 c x y w h True)"
    by blast
  have fa: "frame_arr st s1"
    using s1 by (rule frame_on_arr)
  have f1: "fits E s1 c x y w h"
    using assms by (simp add: frame_arr_fits [OF fa])
  have bw1: "bw (heap_c s1 c) = bw (heap_c st c)"
    using frame_arr_client [OF fa, of c] by (simp add: geom_eq_def)
  have "frame_on {c} st (resize E s1 c x y w h True)"
    by (rule frame_on_trans1 [OF s1 resize_frame])
  with a resize_fits [OF f1] show ?thesis
    by (simp add: bw1 frame_arr_borderless [OF fa])
qed

subsection \<open>monocle\<close>

lemma nexttiled_Cons:
  "nexttiled st (a # cs) = (if is_tiled st a then a # cs else nexttiled st cs)"
  by (simp add: nexttiled_def is_tiled_def)

lemma nexttiled_Nil [simp]: "nexttiled st [] = []"
  by (simp add: nexttiled_def)

lemma frame_arr_is_tiled:
  assumes "frame_arr st st'"
  shows "is_tiled st' c = is_tiled st c"
proof -
  have "isfloating (heap_c st' c) = isfloating (heap_c st c)"
    using frame_arr_client [OF assms, of c] by (simp add: geom_eq_def)
  then show ?thesis
    by (simp add: is_tiled_def frame_arr_ISVISIBLE [OF assms] frame_arr_HIDDEN [OF assms])
qed

lemma frame_arr_workarea:
  assumes "frame_arr st st'"
  shows "wx (heap_m st' m) = wx (heap_m st m)" "wy (heap_m st' m) = wy (heap_m st m)"
    "ww (heap_m st' m) = ww (heap_m st m)" "wh (heap_m st' m) = wh (heap_m st m)"
    "nmaster (heap_m st' m) = nmaster (heap_m st m)" "mfact (heap_m st' m) = mfact (heap_m st m)"
    "clients (heap_m st' m) = clients (heap_m st m)"
  using frame_arr_monitor [OF assms, of m] by (simp_all add: symbol_eq_def)

lemma frame_arr_bw:
  assumes "frame_arr st st'"
  shows "bw (heap_c st' c) = bw (heap_c st c)"
  using frame_arr_client [OF assms, of c] by (simp add: geom_eq_def)

lemma frame_on_other: "frame_on S st st' \<Longrightarrow> c \<notin> S \<Longrightarrow> heap_c st' c = heap_c st c"
  by (simp add: frame_on_def)

lemma monocle_loop_result:
  assumes "frame_arr st0 st"
    and "\<forall>c \<in> set cs. is_tiled st0 c \<longrightarrow>
           fits E st0 c (wx (heap_m st0 m)) (wy (heap_m st0 m))
             (ww (heap_m st0 m) - 2 * bw (heap_c st0 c)) (wh (heap_m st0 m) - 2 * bw (heap_c st0 c))"
  shows "\<exists>st'. monocle_loop E m (nexttiled st0 cs) st = Some st' \<and>
           frame_on {c \<in> set cs. is_tiled st0 c} st st' \<and>
           (\<forall>c \<in> set cs. is_tiled st0 c \<longrightarrow> monocle_placed E st0 m c (heap_c st' c))"
  using assms
proof (induction cs arbitrary: st)
  case Nil
  then show ?case by simp
next
  case (Cons a cs)
  from Cons.prems(2) have fit: "\<forall>c \<in> set cs. is_tiled st0 c \<longrightarrow>
           fits E st0 c (wx (heap_m st0 m)) (wy (heap_m st0 m))
             (ww (heap_m st0 m) - 2 * bw (heap_c st0 c)) (wh (heap_m st0 m) - 2 * bw (heap_c st0 c))"
    by simp
  show ?case
  proof (cases "is_tiled st0 a")
    case False
    from Cons.IH [OF Cons.prems(1) fit] obtain st' where
      "monocle_loop E m (nexttiled st0 cs) st = Some st'"
      "frame_on {c \<in> set cs. is_tiled st0 c} st st'"
      "\<forall>c \<in> set cs. is_tiled st0 c \<longrightarrow> monocle_placed E st0 m c (heap_c st' c)"
      by blast
    moreover have "{c \<in> set (a # cs). is_tiled st0 c} = {c \<in> set cs. is_tiled st0 c}"
      using False by auto
    ultimately show ?thesis
      using False by (auto simp add: nexttiled_Cons)
  next
    case True
    let ?x = "wx (heap_m st0 m)" and ?y = "wy (heap_m st0 m)"
    let ?w = "ww (heap_m st0 m) - 2 * bw (heap_c st0 a)"
    let ?h = "wh (heap_m st0 m) - 2 * bw (heap_c st0 a)"
    note f0 = Cons.prems(1)
    from Cons.prems(2) True have "fits E st0 a ?x ?y ?w ?h" by simp
    then have "fits E st a ?x ?y ?w ?h"
      by (simp add: frame_arr_fits [OF f0])
    from animateclient_fits [OF this, of 10] obtain st1 where
      a: "animateclient E st a ?x ?y ?w ?h 10 False = Some st1"
      and f1: "frame_on {a} st st1"
      and g: "cx (heap_c st1 a) = ?x" "cy (heap_c st1 a) = ?y"
        "(cw (heap_c st1 a) = ?w \<and> ch (heap_c st1 a) = ?h) \<or>
         (borderless E st a \<and> cw (heap_c st1 a) = ?w + 2 * bw (heap_c st a) \<and>
          ch (heap_c st1 a) = ?h + 2 * bw (heap_c st a))"
      by blast
    have pa: "monocle_placed E st0 m a (heap_c st1 a)"
      using g by (auto simp add: monocle_placed_def Let_def frame_arr_bw [OF f0]
          frame_arr_borderless [OF f0])
    have f01: "frame_arr st0 st1"
      by (rule frame_arr_trans [OF f0 frame_on_arr [OF f1]])
    from Cons.IH [OF f01 fit] obtain st' where
      l: "monocle_loop E m (nexttiled st0 cs) st1 = Some st'"
      and f2: "frame_on {c \<in> set cs. is_tiled st0 c} st1 st'"
      and p: "\<forall>c \<in> set cs. is_tiled st0 c \<longrightarrow> monocle_placed E st0 m c (heap_c st' c)"
      by blast
    have "monocle_loop E m (nexttiled st0 (a # cs)) st = Some st'"
      using True a l
      by (simp add: nexttiled_Cons frame_arr_workarea [OF f0] frame_arr_bw [OF f0]
          frame_arr_nexttiled [OF f01])
    moreover have "frame_on {c \<in> set (a # cs). is_tiled st0 c} st st'"
      by (rule frame_on_mono [OF frame_on_trans [OF f1 f2]]) (use True in auto)
    moreover have "monocle_placed E st0 m a (heap_c st' a)"
    proof (cases "a \<in> set cs")
      case True
      with p \<open>is_tiled st0 a\<close> show ?thesis by simp
    next
      case False
      then have "heap_c st' a = heap_c st1 a"
        by (intro frame_on_other [OF f2]) simp
      with pa show ?thesis by simp
    qed
    ultimately show ?thesis
      using p by auto
  qed
qed

lemma u32_id: "0 \<le> v \<Longrightarrow> v < 2 ^ 32 \<Longrightarrow> u32 v = v"
  by (simp add: u32_def)

lemma s32_id: "0 \<le> v \<Longrightarrow> v < 2 ^ 31 \<Longrightarrow> s32 v = v"
  by (simp add: s32_def u32_def)

lemma count_visible_length:
  "0 \<le> n \<Longrightarrow> n + int (length cs) < 2 ^ 32 \<Longrightarrow>
   count_visible st cs n = n + int (length (filter (ISVISIBLE st) cs))"
proof (induction cs arbitrary: n)
  case Nil
  then show ?case by simp
next
  case (Cons a cs)
  show ?case
  proof (cases "ISVISIBLE st a")
    case True
    have "u32 (n + 1) = n + 1"
      using Cons.prems by (intro u32_id) simp_all
    then show ?thesis
      using True Cons.prems Cons.IH [of "n + 1"] by simp
  next
    case False
    then show ?thesis
      using Cons.prems Cons.IH [of n] by simp
  qed
qed

lemma printf_d_nat: "printf_d (int N) = dec N"
  by (simp add: printf_d_def)

lemma monocle_result:
  assumes fit: "\<forall>c \<in> set (clients (heap_m st m)). is_tiled st c \<longrightarrow>
           fits E st c (wx (heap_m st m)) (wy (heap_m st m))
             (ww (heap_m st m) - 2 * bw (heap_c st c)) (wh (heap_m st m) - 2 * bw (heap_c st c))"
    and len: "length (clients (heap_m st m)) < 2 ^ 31"
  shows "\<exists>s1 st'. monocle E m st = Some st' \<and> heap_c s1 = heap_c st \<and>
           ltsymbol (heap_m s1 m) =
             (if 0 < length (filter (ISVISIBLE st) (clients (heap_m st m)))
              then take 15 (''['' @ dec (length (filter (ISVISIBLE st) (clients (heap_m st m)))) @ '']'')
              else ltsymbol (heap_m st m)) \<and>
           frame_on {c \<in> set (clients (heap_m st m)). is_tiled st c} s1 st' \<and>
           (\<forall>c \<in> set (clients (heap_m st m)). is_tiled st c \<longrightarrow>
              monocle_placed E st m c (heap_c st' c))"
proof -
  let ?cs = "clients (heap_m st m)"
  let ?N = "length (filter (ISVISIBLE st) ?cs)"
  have lenN: "?N \<le> length ?cs" by simp
  have n: "count_visible st ?cs 0 = int ?N"
    using len count_visible_length [of 0 ?cs st] by simp
  have "?N < 2 ^ 31"
    using len lenN by (rule_tac le_less_trans)
  then have sN: "s32 (int ?N) = int ?N"
    by (intro s32_id) simp_all
  define s1 where "s1 = (if 0 < ?N
       then st\<lparr>heap_m := (heap_m st)
              (m := (heap_m st m)\<lparr>ltsymbol := take 15 (''['' @ dec ?N @ '']'')\<rparr>)\<rparr>
       else st)"
  have f1: "frame_arr st s1"
    unfolding s1_def by (simp add: upd_ltsymbol_frame frame_arr_refl)
  have h1: "heap_c s1 = heap_c st"
    unfolding s1_def by simp
  have l1: "ltsymbol (heap_m s1 m) =
      (if 0 < ?N then take 15 (''['' @ dec ?N @ '']'') else ltsymbol (heap_m st m))"
    unfolding s1_def by simp
  have m: "monocle E m st = monocle_loop E m (nexttiled st ?cs) s1"
    unfolding monocle_def Let_def n sN printf_d_nat
    using frame_arr_nexttiled [OF f1] frame_arr_workarea(7) [OF f1, of m]
    by (simp add: s1_def)
  from monocle_loop_result [OF f1 fit] obtain st' where
    r: "monocle_loop E m (nexttiled st ?cs) s1 = Some st'"
    "frame_on {c \<in> set ?cs. is_tiled st c} s1 st'"
    "\<forall>c \<in> set ?cs. is_tiled st c \<longrightarrow> monocle_placed E st m c (heap_c st' c)"
    by blast
  from r(1) m have "monocle E m st = Some st'" by simp
  with h1 l1 r(2,3) show ?thesis
    by (intro exI [of _ s1] exI [of _ st'] conjI)
qed


lemma ex_mono_fields:
  "clients (heap_m ex_mono m) = [2, 1]"
  "wx (heap_m ex_mono m) = 0" "wy (heap_m ex_mono m) = 20"
  "ww (heap_m ex_mono m) = 1000" "wh (heap_m ex_mono m) = 780"
  "bw (heap_c ex_mono c) = 1"
  "cw (heap_c ex_mono c) = 100" "ch (heap_c ex_mono c) = 100"
  "ISVISIBLE ex_mono c" "is_tiled ex_mono c = (c \<noteq> 2)"
  "ltsymbol (heap_m ex_mono m) = ''[]=''"
  by (simp_all add: ex_mono_def ex_wm_def ex_monitor_def ex_client_def ISVISIBLE_def
      is_tiled_def HIDDEN_def IconicState_def)

lemma ex_mono_fits: "fits ex_env ex_mono 1 0 20 998 778"
  by (simp add: fits_def hints_apply_def cur_arrange_def ex_mono_def ex_wm_def ex_monitor_def
      ex_client_def ex_env_def ex_layouts_def)

lemma dec_2: "dec (Suc (Suc 0)) = ''2''"
  by code_simp



subsection \<open>tile\<close>

lemma count_tiled_two:
  assumes "nexttiled st r1 = c2 # r2" and "nexttiled st r2 = []"
  shows "count_tiled st (c1 # r1) 0 = 2"
  using assms by (simp add: u32_def)

lemma two_tiled_not_borderless:
  assumes ch: "nexttiled st (clients (heap_m st m)) = c1 # r1" "nexttiled st r1 = c2 # r2"
    and ne: "c1 \<noteq> c2"
    and lay: "cur_arrange E (heap_m st m) = Some Tile"
    and own: "mon (heap_c st c) = m"
  shows "\<not> borderless E st c"
  using assms by (auto simp add: borderless_def Let_def)

lemma animateclient_tiled:
  assumes "fits E st c x y w h" and "\<not> borderless E st c"
  shows "\<exists>st'. animateclient E st c x y w h frames False = Some st' \<and> frame_on {c} st st' \<and>
           cx (heap_c st' c) = x \<and> cy (heap_c st' c) = y \<and>
           cw (heap_c st' c) = w \<and> ch (heap_c st' c) = h"
  using animateclient_fits [OF assms(1), of frames] assms(2) by blast

lemma tile_loop_master_step:
  assumes "nmaster (heap_m st m) = 1" and "0 \<le> wh (heap_m st m)" and "wh (heap_m st m) < 2 ^ 31"
  shows "tile_loop E m 2 mwd fc 0 0 0 (c # rest) st =
         Option.bind
           (animateclient E st c (wx (heap_m st m)) (s32 (wy (heap_m st m)))
              (s32 (mwd - 2 * bw (heap_c st c))) (s32 (wh (heap_m st m) - 2 * bw (heap_c st c)))
              fc False)
           (\<lambda>st1. tile_loop E m 2 mwd fc 1
              (if u32 (HEIGHT (heap_c st1 c)) < u32 (wh (heap_m st1 m))
               then u32 (HEIGHT (heap_c st1 c)) else 0)
              0 (nexttiled st1 rest) st1)"
  using assms by (simp add: udiv_def u32_def cong: if_cong)

lemma tile_loop_stack_step:
  assumes "nmaster (heap_m st m) = 1" and "0 \<le> wh (heap_m st m)" and "wh (heap_m st m) < 2 ^ 31"
  shows "tile_loop E m 2 mwd fc 1 myo 0 (c # rest) st =
         Option.bind
           (animateclient E st c (s32 (wx (heap_m st m) + mwd)) (s32 (wy (heap_m st m)))
              (s32 (ww (heap_m st m) - mwd - 2 * bw (heap_c st c)))
              (s32 (wh (heap_m st m) - 2 * bw (heap_c st c))) fc False)
           (\<lambda>st1. tile_loop E m 2 mwd fc 2 myo
              (if u32 (HEIGHT (heap_c st1 c)) < u32 (wh (heap_m st1 m))
               then u32 (HEIGHT (heap_c st1 c)) else 0)
              (nexttiled st1 rest) st1)"
  using assms by (simp add: udiv_def u32_def cong: if_cong)

lemma fits_pos: "fits E st c x y w h \<Longrightarrow> 1 \<le> w \<and> 1 \<le> h"
  by (simp add: fits_def)

lemma bind_Some_cong:
  assumes "\<And>y. a = Some y \<Longrightarrow> f y = g y"
  shows "Option.bind a f = Option.bind a g"
  using assms by (cases a) simp_all

lemma tile_two_steps:
  assumes nm: "nmaster (heap_m st m) = 1"
    and ch: "nexttiled st (clients (heap_m st m)) = c1 # r1" "nexttiled st r1 = c2 # r2"
      "nexttiled st r2 = []"
    and org: "0 \<le> wx (heap_m st m)" "0 \<le> wy (heap_m st m)"
    and lim: "wx (heap_m st m) + ww (heap_m st m) < 2 ^ 31"
      "wy (heap_m st m) + wh (heap_m st m) < 2 ^ 31"
    and F: "fp_mul E (ww (heap_m st m)) (mfact (heap_m st m)) = F"
    and b1: "0 \<le> bw (heap_c st c1)" "2 * bw (heap_c st c1) \<le> F"
      "2 * bw (heap_c st c1) \<le> wh (heap_m st m)"
    and b2: "0 \<le> bw (heap_c st c2)" "F + 2 * bw (heap_c st c2) \<le> ww (heap_m st m)"
      "2 * bw (heap_c st c2) \<le> wh (heap_m st m)"
  shows "tile E m st =
         Option.bind
           (animateclient E st c1 (wx (heap_m st m)) (wy (heap_m st m))
              (F - 2 * bw (heap_c st c1)) (wh (heap_m st m) - 2 * bw (heap_c st c1))
              (if animated st \<and> clientcount E st > 5 then 4 else 7) False)
           (\<lambda>st1. animateclient E st1 c2 (wx (heap_m st m) + F) (wy (heap_m st m))
              (ww (heap_m st m) - F - 2 * bw (heap_c st c2))
              (wh (heap_m st m) - 2 * bw (heap_c st c2))
              (if animated st \<and> clientcount E st > 5 then 4 else 7) False)"
proof -
  let ?M = "heap_m st m"
  let ?b1 = "bw (heap_c st c1)" and ?b2 = "bw (heap_c st c2)"
  let ?fc = "if animated st \<and> clientcount E st > 5 then 4 else 7 :: int"
  from b1 b2 org lim have r: "0 \<le> F" "F < 2 ^ 31" "0 \<le> wh ?M" "wh ?M < 2 ^ 31"
    "F - 2 * ?b1 < 2 ^ 31" "wh ?M - 2 * ?b1 < 2 ^ 31" "wx ?M + F < 2 ^ 31" "wy ?M < 2 ^ 31"
    "ww ?M - F - 2 * ?b2 < 2 ^ 31" "wh ?M - 2 * ?b2 < 2 ^ 31"
    by simp_all
  have uF: "u32 F = F"
    using r(1,2) by (intro u32_id) simp_all
  have s: "s32 (wy ?M) = wy ?M" "s32 (F - 2 * ?b1) = F - 2 * ?b1"
    "s32 (wh ?M - 2 * ?b1) = wh ?M - 2 * ?b1" "s32 (wx ?M + F) = wx ?M + F"
    "s32 (ww ?M - F - 2 * ?b2) = ww ?M - F - 2 * ?b2" "s32 (wh ?M - 2 * ?b2) = wh ?M - 2 * ?b2"
    using b1 b2 r org by (simp_all add: s32_id)
  have t: "tile E m st = tile_loop E m 2 F ?fc 0 0 0 (c1 # r1) st"
    unfolding tile_def Let_def ch(1) count_tiled_two [OF ch(2,3)] nm F uF
    by (simp add: u32_def)
  have step2: "tile_loop E m 2 F ?fc 1 myo 0 (nexttiled st1 r1) st1 =
      animateclient E st1 c2 (wx ?M + F) (wy ?M) (ww ?M - F - 2 * ?b2) (wh ?M - 2 * ?b2) ?fc False"
    if a: "animateclient E st c1 (wx ?M) (wy ?M) (F - 2 * ?b1) (wh ?M - 2 * ?b1) ?fc False = Some st1"
    for st1 myo
  proof -
    note fa1 = animateclient_frame_arr [OF a]
    have m1: "heap_m st1 = heap_m st"
      using animateclient_frame [OF a] by (simp add: frame_on_def)
    have "tile_loop E m 2 F ?fc 1 myo 0 (nexttiled st1 r1) st1 =
        Option.bind
           (animateclient E st1 c2 (s32 (wx ?M + F)) (s32 (wy ?M))
              (s32 (ww ?M - F - 2 * ?b2)) (s32 (wh ?M - 2 * ?b2)) ?fc False)
           (\<lambda>s. tile_loop E m 2 F ?fc 2 myo
              (if u32 (HEIGHT (heap_c s c2)) < u32 (wh (heap_m s m))
               then u32 (HEIGHT (heap_c s c2)) else 0)
              (nexttiled s r2) s)"
      using tile_loop_stack_step [of st1 m E F ?fc myo c2 r2] nm r(3,4)
      by (simp add: m1 frame_arr_bw [OF fa1] frame_arr_nexttiled [OF fa1] ch(2))
    also have "\<dots> = Option.bind
           (animateclient E st1 c2 (s32 (wx ?M + F)) (s32 (wy ?M))
              (s32 (ww ?M - F - 2 * ?b2)) (s32 (wh ?M - 2 * ?b2)) ?fc False) Some"
    proof (rule bind_Some_cong)
      fix s
      assume "animateclient E st1 c2 (s32 (wx ?M + F)) (s32 (wy ?M))
              (s32 (ww ?M - F - 2 * ?b2)) (s32 (wh ?M - 2 * ?b2)) ?fc False = Some s"
      from animateclient_frame_arr [OF this]
      have "nexttiled s r2 = []"
        using frame_arr_nexttiled [OF frame_arr_trans [OF fa1]] ch(3) by simp
      then show "tile_loop E m 2 F ?fc 2 myo
              (if u32 (HEIGHT (heap_c s c2)) < u32 (wh (heap_m s m))
               then u32 (HEIGHT (heap_c s c2)) else 0)
              (nexttiled s r2) s = Some s"
        by simp
    qed
    finally show ?thesis
      unfolding s by simp
  qed
  show ?thesis
    unfolding t tile_loop_master_step [OF nm r(3,4)] s
    by (rule bind_Some_cong) (rule step2)
qed

lemma tile_two_result:
  assumes nm: "nmaster (heap_m st m) = 1"
    and lay: "cur_arrange E (heap_m st m) = Some Tile"
    and ch: "nexttiled st (clients (heap_m st m)) = c1 # r1" "nexttiled st r1 = c2 # r2"
      "nexttiled st r2 = []"
    and ne: "c1 \<noteq> c2"
    and own: "mon (heap_c st c1) = m" "mon (heap_c st c2) = m"
    and bw0: "0 \<le> bw (heap_c st c1)" "0 \<le> bw (heap_c st c2)"
    and org: "0 \<le> wx (heap_m st m)" "0 \<le> wy (heap_m st m)"
    and lim: "wx (heap_m st m) + ww (heap_m st m) < 2 ^ 31"
      "wy (heap_m st m) + wh (heap_m st m) < 2 ^ 31"
    and F: "fp_mul E (ww (heap_m st m)) (mfact (heap_m st m)) = F"
    and fit1: "fits E st c1 (wx (heap_m st m)) (wy (heap_m st m))
                 (F - 2 * bw (heap_c st c1)) (wh (heap_m st m) - 2 * bw (heap_c st c1))"
    and fit2: "fits E st c2 (wx (heap_m st m) + F) (wy (heap_m st m))
                 (ww (heap_m st m) - F - 2 * bw (heap_c st c2))
                 (wh (heap_m st m) - 2 * bw (heap_c st c2))"
  shows "\<exists>st'. tile E m st = Some st' \<and> frame_on {c1, c2} st st' \<and>
           cx (heap_c st' c1) = wx (heap_m st m) \<and> cy (heap_c st' c1) = wy (heap_m st m) \<and>
           cw (heap_c st' c1) = F - 2 * bw (heap_c st c1) \<and>
           ch (heap_c st' c1) = wh (heap_m st m) - 2 * bw (heap_c st c1) \<and>
           cx (heap_c st' c2) = wx (heap_m st m) + F \<and> cy (heap_c st' c2) = wy (heap_m st m) \<and>
           cw (heap_c st' c2) = ww (heap_m st m) - F - 2 * bw (heap_c st c2) \<and>
           ch (heap_c st' c2) = wh (heap_m st m) - 2 * bw (heap_c st c2)"
proof -
  let ?M = "heap_m st m"
  let ?b1 = "bw (heap_c st c1)" and ?b2 = "bw (heap_c st c2)"
  let ?fc = "if animated st \<and> clientcount E st > 5 then 4 else 7 :: int"
  from fits_pos [OF fit1] fits_pos [OF fit2]
  have p: "2 * ?b1 \<le> F" "2 * ?b1 \<le> wh ?M" "F + 2 * ?b2 \<le> ww ?M" "2 * ?b2 \<le> wh ?M"
    by simp_all
  note t = tile_two_steps [OF nm ch org lim F bw0(1) p(1,2) bw0(2) p(3,4)]
  have nb1: "\<not> borderless E st c1"
    by (rule two_tiled_not_borderless [OF ch(1,2) ne lay own(1)])
  from animateclient_tiled [OF fit1 nb1, of ?fc] obtain st1 where
    a1: "animateclient E st c1 (wx ?M) (wy ?M) (F - 2 * ?b1) (wh ?M - 2 * ?b1) ?fc False = Some st1"
    and f1: "frame_on {c1} st st1"
    and g1: "cx (heap_c st1 c1) = wx ?M" "cy (heap_c st1 c1) = wy ?M"
      "cw (heap_c st1 c1) = F - 2 * ?b1" "ch (heap_c st1 c1) = wh ?M - 2 * ?b1"
    by blast
  note fa1 = frame_on_arr [OF f1]
  have nb2: "\<not> borderless E st1 c2"
    using two_tiled_not_borderless [OF ch(1,2) ne lay own(2)]
    by (simp add: frame_arr_borderless [OF fa1])
  have fit2': "fits E st1 c2 (wx ?M + F) (wy ?M) (ww ?M - F - 2 * ?b2) (wh ?M - 2 * ?b2)"
    using fit2 by (simp add: frame_arr_fits [OF fa1])
  from animateclient_tiled [OF fit2' nb2, of ?fc] obtain st2 where
    a2: "animateclient E st1 c2 (wx ?M + F) (wy ?M) (ww ?M - F - 2 * ?b2) (wh ?M - 2 * ?b2)
           ?fc False = Some st2"
    and f2: "frame_on {c2} st1 st2"
    and g2: "cx (heap_c st2 c2) = wx ?M + F" "cy (heap_c st2 c2) = wy ?M"
      "cw (heap_c st2 c2) = ww ?M - F - 2 * ?b2" "ch (heap_c st2 c2) = wh ?M - 2 * ?b2"
    by blast
  have "tile E m st = Some st2"
    unfolding t a1 using a2 by simp
  moreover have "frame_on {c1, c2} st st2"
    using frame_on_trans [OF f1 f2] by (simp add: insert_commute)
  moreover have "heap_c st2 c1 = heap_c st1 c1"
    using ne by (intro frame_on_other [OF f2]) simp
  ultimately show ?thesis
    using g1 g2 by simp
qed

lemma ex_tile_fields:
  "clients (heap_m ex_tile m) = [2, 1]"
  "wx (heap_m ex_tile m) = 0" "wy (heap_m ex_tile m) = 20"
  "ww (heap_m ex_tile m) = 1000" "wh (heap_m ex_tile m) = 780"
  "nmaster (heap_m ex_tile m) = 1" "mfact (heap_m ex_tile m) = 1 / 2"
  "bw (heap_c ex_tile c) = 1" "mon (heap_c ex_tile c) = 0"
  "incw (heap_c ex_tile c) = (if c = 2 then 7 else 0)"
  "cw (heap_c ex_tile c) = 100"
  "is_tiled ex_tile c" "animated ex_tile = False"
  by (simp_all add: ex_tile_def ex_wm_def ex_monitor_def ex_client_def ISVISIBLE_def
      is_tiled_def HIDDEN_def IconicState_def)

lemma ex_tile_chain:
  "nexttiled ex_tile (clients (heap_m ex_tile 0)) = 2 # [1]"
  "nexttiled ex_tile [1] = 1 # []"
  "nexttiled ex_tile [] = []"
  by (simp_all add: ex_tile_fields nexttiled_Cons)

lemma ex_tile_layout:
  "cur_arrange ex_env (heap_m ex_tile 0) = Some Tile"
  "cur_arrange ex_env_hints (heap_m ex_tile 0) = Some Tile"
  by (simp_all add: cur_arrange_def ex_tile_def ex_wm_def ex_monitor_def ex_env_hints_def
      ex_env_def ex_layouts_def)

lemma c_mul_half_1000: "c_mul 1000 (1 / 2) = 500"
  by code_simp

lemma ex_tile_fp:
  "fp_mul ex_env 1000 (1 / 2) = 500"
  "fp_mul ex_env_hints 1000 (1 / 2) = 500"
  by (simp_all add: ex_env_hints_def ex_env_def c_mul_half_1000)

lemma ex_tile_fits:
  "fits ex_env ex_tile 2 0 20 498 778"
  "fits ex_env ex_tile 1 500 20 498 778"
  by (simp_all add: fits_def hints_apply_def cur_arrange_def ex_tile_def ex_wm_def
      ex_monitor_def ex_client_def ex_env_def ex_layouts_def)

lemma animateclient_static:
  assumes "\<not> animated st" and "w \<noteq> 0" and "h \<noteq> 0"
  shows "animateclient E st c x y w h frames False = Some (resize E st c x y w h True)"
proof -
  have "\<not> anim_far st c x y w h"
    using assms(1) by (simp add: anim_far_def Let_def)
  then show ?thesis
    using assms(2,3) by (subst animateclient.simps) (simp add: Let_def)
qed

lemma ex_tile_hinted:
  "applysizehints ex_env_hints ex_tile 2 0 20 498 778 True = (0, 20, 497, 778, True)"
  by (simp add: applysizehints_def clamp_pos_def hints_apply_def sizehints_body_def
      aspect_set_def Let_def ex_tile_def ex_wm_def ex_monitor_def ex_client_def
      ex_env_hints_def ex_env_def signed_modulo_int_def)

lemma ex_tile_fits_hinted: "fits ex_env_hints ex_tile 1 500 20 498 778"
  by (simp add: fits_def hints_apply_def sizehints_body_def aspect_set_def Let_def
      ex_tile_def ex_wm_def ex_monitor_def ex_client_def ex_env_hints_def ex_env_def)

text \<open>
  With \<open>resizehints\<close> set and a master that resizes in steps of 7, \<open>applysizehints\<close>
  cuts the width 498 that \<open>tile\<close> asks for down to 497.
\<close>

lemma tile_size_hints_example:
  "resizehints ex_env_hints \<and> incw (heap_c ex_tile 2) = 7 \<and> bw (heap_c ex_tile 2) = 1 \<and>
   nmaster (heap_m ex_tile 0) = 1 \<and>
   nexttiled ex_tile (clients (heap_m ex_tile 0)) = [2, 1] \<and>
   \<lfloor>of_int (ww (heap_m ex_tile 0)) * mfact (heap_m ex_tile 0)\<rfloor> = 500 \<and>
   tile ex_env_hints 0 ex_tile \<noteq> None \<and>
   cw (heap_c (the (tile ex_env_hints 0 ex_tile)) 2) = 497 \<and>
   WIDTH (heap_c (the (tile ex_env_hints 0 ex_tile)) 2) = 499 \<and>
   cw (heap_c (the (tile ex_env_hints 0 ex_tile)) 1) = 498 \<and>
   WIDTH (heap_c (the (tile ex_env_hints 0 ex_tile)) 1) = 500"
proof -
  let ?E = ex_env_hints
  define s1 where "s1 = resize ?E ex_tile 2 0 20 498 778 True"
  define s2 where "s2 = resize ?E s1 1 500 20 498 778 True"
  have f1: "frame_on {2} ex_tile s1"
    unfolding s1_def by (rule resize_frame)
  note fa1 = frame_on_arr [OF f1]
  have f2: "frame_on {1} s1 s2"
    unfolding s2_def by (rule resize_frame)
  have an: "\<not> animated ex_tile" "\<not> animated s1"
    using fa1 by (simp_all add: ex_tile_fields frame_arr_def globals_eq_def)
  have a1: "animateclient ?E ex_tile 2 0 20 498 778 7 False = Some s1"
    unfolding s1_def by (rule animateclient_static [OF an(1)]) simp_all
  have a2: "animateclient ?E s1 1 500 20 498 778 7 False = Some s2"
    unfolding s2_def by (rule animateclient_static [OF an(2)]) simp_all
  have "tile ?E 0 ex_tile =
      Option.bind (animateclient ?E ex_tile 2 0 20 498 778 7 False)
        (\<lambda>s. animateclient ?E s 1 500 20 498 778 7 False)"
    using tile_two_steps [of ex_tile 0 2 "[1]" 1 "[]" ?E 500] ex_tile_chain ex_tile_fp(2)
    by (simp add: ex_tile_fields)
  then have t: "tile ?E 0 ex_tile = Some s2"
    unfolding a1 using a2 by simp
  have nb: "\<not> borderless ?E ex_tile 2" "\<not> borderless ?E ex_tile 1"
    by (rule two_tiled_not_borderless [OF ex_tile_chain(1,2) _ ex_tile_layout(2)];
        simp add: ex_tile_fields)+
  have "s1 = resizeclient ?E ex_tile 2 0 20 497 778"
    unfolding s1_def by (simp add: resize_def ex_tile_hinted)
  then have c2: "cw (heap_c s1 2) = 497"
    using nb(1) by (simp add: resizeclient_geom)
  have "heap_c s2 2 = heap_c s1 2"
    by (intro frame_on_other [OF f2]) simp
  with c2 have w2: "cw (heap_c s2 2) = 497" by simp
  have "fits ?E s1 1 500 20 498 778"
    using ex_tile_fits_hinted by (simp add: frame_arr_fits [OF fa1])
  from resize_fits(3) [OF this] nb(2) have w1: "cw (heap_c s2 1) = 498"
    by (auto simp add: s2_def frame_arr_borderless [OF fa1])
  have b: "bw (heap_c s2 c) = 1" for c
    using frame_arr_bw [OF frame_arr_trans [OF fa1 frame_on_arr [OF f2]], of c]
    by (simp add: ex_tile_fields)
  have "resizehints ?E"
    by (simp add: ex_env_hints_def)
  with t w1 w2 b ex_tile_chain show ?thesis
    by (simp add: WIDTH_def ex_tile_fields)
qed

text \<open>
  C6, as the code has it. One master and one stack client are tiled on a monitor in the
  tile layout, with \<open>nmaster = 1\<close>; the work area lies in the range of \<open>int\<close>; and the
  two rectangles that \<open>tile\<close> asks for pass \<open>applysizehints\<close> unchanged (\<open>fits\<close>),
  which they do whenever \<open>resizehints\<close> is off and they are at least \<open>bh\<close> wide and
  high. Then \<open>tile\<close> returns, the master is \<open>mw\<close> wide and the stack client
  \<open>W - mw\<close>, both measured with the border (\<open>WIDTH\<close>), the two add up to \<open>W\<close>, and the
  stack client starts where the master ends. \<open>mw\<close> is the value of line 3630: the
  product \<open>W * f\<close> as the code computes it in \<open>float\<close>, converted to \<open>unsigned int\<close>.
\<close>

theorem tile_master_stack_widths:
  assumes "nmaster (heap_m st m) = 1"
    and "cur_arrange E (heap_m st m) = Some Tile"
    and "nexttiled st (clients (heap_m st m)) = c1 # r1"
    and "nexttiled st r1 = c2 # r2"
    and "nexttiled st r2 = []"
    and "c1 \<noteq> c2"
    and "mon (heap_c st c1) = m" and "mon (heap_c st c2) = m"
    and "0 \<le> bw (heap_c st c1)" and "0 \<le> bw (heap_c st c2)"
    and "0 \<le> wx (heap_m st m)" and "0 \<le> wy (heap_m st m)"
    and "wx (heap_m st m) + ww (heap_m st m) < 2 ^ 31"
    and "wy (heap_m st m) + wh (heap_m st m) < 2 ^ 31"
    and "fits E st c1 (wx (heap_m st m)) (wy (heap_m st m))
           (fp_mul E (ww (heap_m st m)) (mfact (heap_m st m)) - 2 * bw (heap_c st c1))
           (wh (heap_m st m) - 2 * bw (heap_c st c1))"
    and "fits E st c2 (wx (heap_m st m) + fp_mul E (ww (heap_m st m)) (mfact (heap_m st m)))
           (wy (heap_m st m))
           (ww (heap_m st m) - fp_mul E (ww (heap_m st m)) (mfact (heap_m st m))
              - 2 * bw (heap_c st c2))
           (wh (heap_m st m) - 2 * bw (heap_c st c2))"
  shows "\<exists>st'. tile E m st = Some st' \<and>
           WIDTH (heap_c st' c1) = fp_mul E (ww (heap_m st m)) (mfact (heap_m st m)) \<and>
           WIDTH (heap_c st' c2) =
             ww (heap_m st m) - fp_mul E (ww (heap_m st m)) (mfact (heap_m st m)) \<and>
           WIDTH (heap_c st' c1) + WIDTH (heap_c st' c2) = ww (heap_m st m) \<and>
           cx (heap_c st' c1) = wx (heap_m st m) \<and>
           cx (heap_c st' c2) = wx (heap_m st m) + WIDTH (heap_c st' c1) \<and>
           bw (heap_c st' c1) = bw (heap_c st c1) \<and> bw (heap_c st' c2) = bw (heap_c st c2)"
proof -
  let ?F = "fp_mul E (ww (heap_m st m)) (mfact (heap_m st m))"
  from tile_two_result [OF assms(1-14) refl assms(15,16)] obtain st' where
    t: "tile E m st = Some st'" and f: "frame_on {c1, c2} st st'"
    and g: "cx (heap_c st' c1) = wx (heap_m st m)"
      "cw (heap_c st' c1) = ?F - 2 * bw (heap_c st c1)"
      "cx (heap_c st' c2) = wx (heap_m st m) + ?F"
      "cw (heap_c st' c2) = ww (heap_m st m) - ?F - 2 * bw (heap_c st c2)"
    by blast
  have b: "bw (heap_c st' c) = bw (heap_c st c)" for c
    by (rule frame_arr_bw [OF frame_on_arr [OF f]])
  from t g show ?thesis
    by (simp add: WIDTH_def b)
qed

lemma ex_tile7_fields:
  "clients (heap_m ex_tile7 m) = [2, 1]"
  "wx (heap_m ex_tile7 m) = 0" "wy (heap_m ex_tile7 m) = 20"
  "ww (heap_m ex_tile7 m) = 1000" "wh (heap_m ex_tile7 m) = 780"
  "nmaster (heap_m ex_tile7 m) = 1" "mfact (heap_m ex_tile7 m) = 11744051 / 16777216"
  "bw (heap_c ex_tile7 c) = 1" "mon (heap_c ex_tile7 c) = 0"
  "is_tiled ex_tile7 c"
  by (simp_all add: ex_tile7_def ex_tile_def ex_wm_def ex_monitor_def ex_client_def ISVISIBLE_def
      is_tiled_def HIDDEN_def IconicState_def)

lemma ex_tile7_chain:
  "nexttiled ex_tile7 (clients (heap_m ex_tile7 0)) = 2 # [1]"
  "nexttiled ex_tile7 [1] = 1 # []"
  "nexttiled ex_tile7 [] = []"
  by (simp_all add: ex_tile7_fields nexttiled_Cons)

lemma ex_tile7_layout: "cur_arrange ex_env (heap_m ex_tile7 0) = Some Tile"
  by (simp add: cur_arrange_def ex_tile7_def ex_tile_def ex_wm_def ex_monitor_def
      ex_env_def ex_layouts_def)

lemma c_mul_1000_07f: "c_mul 1000 (11744051 / 16777216) = 700"
  by code_simp

lemma ex_tile7_fp: "fp_mul ex_env 1000 (11744051 / 16777216) = 700"
  by (simp add: ex_env_def c_mul_1000_07f)

lemma ex_tile7_fits:
  "fits ex_env ex_tile7 2 0 20 698 778"
  "fits ex_env ex_tile7 1 700 20 298 778"
  by (simp_all add: fits_def hints_apply_def cur_arrange_def ex_tile7_def ex_tile_def ex_wm_def
      ex_monitor_def ex_client_def ex_env_def ex_layouts_def)

text \<open>
  In a work area 1000 wide with the split factor \<open>0.7f\<close> the master is 700 wide and the
  stack client 300.
\<close>

theorem tile_master_stack_widths_witness:
  "tile ex_env 0 ex_tile7 \<noteq> None \<and>
   WIDTH (heap_c (the (tile ex_env 0 ex_tile7)) 2) = 700 \<and>
   WIDTH (heap_c (the (tile ex_env 0 ex_tile7)) 1) = 300 \<and>
   cx (heap_c (the (tile ex_env 0 ex_tile7)) 2) = 0 \<and>
   cx (heap_c (the (tile ex_env 0 ex_tile7)) 1) = 700 \<and>
   ww (heap_m ex_tile7 0) = 1000 \<and> mfact (heap_m ex_tile7 0) = 11744051 / 16777216"
  using tile_master_stack_widths [of ex_tile7 0 ex_env 2 "[1]" 1 "[]"]
    ex_tile7_chain ex_tile7_layout ex_tile7_fp ex_tile7_fits
  by (auto simp add: ex_tile7_fields)

lemma floor_1000_07f:
  "\<lfloor>of_int (ww (heap_m ex_tile7 0)) * mfact (heap_m ex_tile7 0)\<rfloor> = 699"
  unfolding ex_tile7_fields by code_simp

text \<open>
  C6 as stated fails in two ways. The product of line 3630 is a \<open>float\<close>: with the work
  area 1000 wide and the split factor \<open>0.7f\<close>, which is a little less than seven
  tenths, \<open>floor (W * f)\<close> is 699, and the product is rounded to 700: the master is 698
  wide, 700 with its border. And \<open>resize\<close> applies the size hints: with \<open>resizehints\<close>
  set, the factor one half and a master that resizes in steps of 7, the master is 497
  wide, 499 with its border, where \<open>floor (W * f)\<close> is 500.
\<close>

theorem tile_width_counterexample:
  "ww (heap_m ex_tile7 0) = 1000 \<and> mfact (heap_m ex_tile7 0) = 11744051 / 16777216 \<and>
   nmaster (heap_m ex_tile7 0) = 1 \<and>
   nexttiled ex_tile7 (clients (heap_m ex_tile7 0)) = [2, 1] \<and>
   \<lfloor>of_int (ww (heap_m ex_tile7 0)) * mfact (heap_m ex_tile7 0)\<rfloor> = 699 \<and>
   tile ex_env 0 ex_tile7 \<noteq> None \<and>
   cw (heap_c (the (tile ex_env 0 ex_tile7)) 2) = 698 \<and>
   WIDTH (heap_c (the (tile ex_env 0 ex_tile7)) 2) = 700 \<and>
   resizehints ex_env_hints \<and> incw (heap_c ex_tile 2) = 7 \<and>
   ww (heap_m ex_tile 0) = 1000 \<and> mfact (heap_m ex_tile 0) = 1 / 2 \<and>
   nexttiled ex_tile (clients (heap_m ex_tile 0)) = [2, 1] \<and>
   tile ex_env_hints 0 ex_tile \<noteq> None \<and>
   cw (heap_c (the (tile ex_env_hints 0 ex_tile)) 2) = 497 \<and>
   WIDTH (heap_c (the (tile ex_env_hints 0 ex_tile)) 2) = 499"
proof -
  have nm: "nmaster (heap_m ex_tile7 0) = 1" and ne: "(2::nat) \<noteq> 1"
    and own: "mon (heap_c ex_tile7 2) = 0" "mon (heap_c ex_tile7 1) = 0"
    and b0: "0 \<le> bw (heap_c ex_tile7 2)" "0 \<le> bw (heap_c ex_tile7 1)"
    and org: "0 \<le> wx (heap_m ex_tile7 0)" "0 \<le> wy (heap_m ex_tile7 0)"
    and lim: "wx (heap_m ex_tile7 0) + ww (heap_m ex_tile7 0) < 2 ^ 31"
      "wy (heap_m ex_tile7 0) + wh (heap_m ex_tile7 0) < 2 ^ 31"
    and F: "fp_mul ex_env (ww (heap_m ex_tile7 0)) (mfact (heap_m ex_tile7 0)) = 700"
    by (simp_all add: ex_tile7_fields ex_tile7_fp)
  have fit: "fits ex_env ex_tile7 2 (wx (heap_m ex_tile7 0)) (wy (heap_m ex_tile7 0))
                 (700 - 2 * bw (heap_c ex_tile7 2)) (wh (heap_m ex_tile7 0) - 2 * bw (heap_c ex_tile7 2))"
    "fits ex_env ex_tile7 1 (wx (heap_m ex_tile7 0) + 700) (wy (heap_m ex_tile7 0))
                 (ww (heap_m ex_tile7 0) - 700 - 2 * bw (heap_c ex_tile7 1))
                 (wh (heap_m ex_tile7 0) - 2 * bw (heap_c ex_tile7 1))"
    using ex_tile7_fits by (simp_all add: ex_tile7_fields)
  from tile_two_result [OF nm ex_tile7_layout ex_tile7_chain ne own b0 org lim F fit]
  obtain st' where "tile ex_env 0 ex_tile7 = Some st'"
    "cw (heap_c st' 2) = 700 - 2 * bw (heap_c ex_tile7 2)" "frame_on {2, 1} ex_tile7 st'"
    by blast
  moreover from this(3) have "bw (heap_c st' 2) = bw (heap_c ex_tile7 2)"
    by (intro frame_arr_bw frame_on_arr)
  ultimately have a: "tile ex_env 0 ex_tile7 \<noteq> None"
    "cw (heap_c (the (tile ex_env 0 ex_tile7)) 2) = 698"
    "WIDTH (heap_c (the (tile ex_env 0 ex_tile7)) 2) = 700"
    by (simp_all add: WIDTH_def ex_tile7_fields)
  have c: "mfact (heap_m ex_tile 0) = 1 / 2" "ww (heap_m ex_tile 0) = 1000"
    "ww (heap_m ex_tile7 0) = 1000" "mfact (heap_m ex_tile7 0) = 11744051 / 16777216"
    "nexttiled ex_tile7 (clients (heap_m ex_tile7 0)) = [2, 1]"
    by (simp_all add: ex_tile_fields ex_tile7_fields nexttiled_Cons)
  have h: "resizehints ex_env_hints" "incw (heap_c ex_tile 2) = 7"
    "nexttiled ex_tile (clients (heap_m ex_tile 0)) = [2, 1]"
    "tile ex_env_hints 0 ex_tile \<noteq> None"
    "cw (heap_c (the (tile ex_env_hints 0 ex_tile)) 2) = 497"
    "WIDTH (heap_c (the (tile ex_env_hints 0 ex_tile)) 2) = 499"
    using tile_size_hints_example by blast+
  show ?thesis
    by (intro conjI) (fact c nm floor_1000_07f a h)+
qed

subsection \<open>updategeom\<close>

lemma detachstack_fields:
  "mons (detachstack c st) = mons st" "selmon (detachstack c st) = selmon st"
  "heap_c (detachstack c st) = heap_c st"
  "clients (heap_m (detachstack c st) m) = clients (heap_m st m)"
  by (auto simp add: detachstack_def upd_mon_def Let_def)

lemma detachstack_stack:
  "set (stack (heap_m st m)) - {c} \<subseteq> set (stack (heap_m (detachstack c st) m))"
proof
  fix x
  assume "x \<in> set (stack (heap_m st m)) - {c}"
  then have "x \<in> set (stack (heap_m st m))" "x \<in> set (remove1 c (stack (heap_m st m)))"
    by (simp_all add: in_set_remove1)
  then show "x \<in> set (stack (heap_m (detachstack c st) m))"
    by (auto simp add: detachstack_def upd_mon_def Let_def)
qed

lemma attach_fields:
  "mons (attach c st) = mons st" "selmon (attach c st) = selmon st"
  "heap_c (attach c st) = heap_c st"
  "clients (heap_m (attach c st) m) =
     (if m = mon (heap_c st c) then c # clients (heap_m st m) else clients (heap_m st m))"
  "stack (heap_m (attach c st) m) = stack (heap_m st m)"
  by (simp_all add: attach_def upd_mon_def)

lemma attachstack_fields:
  "mons (attachstack c st) = mons st" "selmon (attachstack c st) = selmon st"
  "heap_c (attachstack c st) = heap_c st"
  "clients (heap_m (attachstack c st) m) = clients (heap_m st m)"
  "stack (heap_m (attachstack c st) m) =
     (if m = mon (heap_c st c) then c # stack (heap_m st m) else stack (heap_m st m))"
  by (simp_all add: attachstack_def upd_mon_def)

lemma migrate_step_fields:
  assumes "m \<noteq> hd (mons st)"
  shows "mons (migrate_step m c rest st) = mons st"
    and "selmon (migrate_step m c rest st) = selmon st"
    and "heap_c (migrate_step m c rest st) = (heap_c st)(c := (heap_c st c)\<lparr>mon := hd (mons st)\<rparr>)"
    and "clients (heap_m (migrate_step m c rest st) m) = rest"
    and "clients (heap_m (migrate_step m c rest st) (hd (mons st))) =
           c # clients (heap_m st (hd (mons st)))"
    and "m' \<noteq> m \<Longrightarrow> m' \<noteq> hd (mons st) \<Longrightarrow>
           clients (heap_m (migrate_step m c rest st) m') = clients (heap_m st m')"
    and "insert c (set (stack (heap_m st (hd (mons st))))) \<subseteq>
           set (stack (heap_m (migrate_step m c rest st) (hd (mons st))))"
proof -
  let ?h = "hd (mons st)"
  define st1 where "st1 = upd_mon m (\<lambda>M. M\<lparr>clients := rest\<rparr>) st"
  define st2 where "st2 = detachstack c st1"
  define st3 where "st3 = upd_client c (\<lambda>C. C\<lparr>mon := hd (mons st2)\<rparr>) st2"
  have s1: "mons st1 = mons st" "selmon st1 = selmon st" "heap_c st1 = heap_c st"
    "clients (heap_m st1 m) = rest"
    "\<And>m'. m' \<noteq> m \<Longrightarrow> clients (heap_m st1 m') = clients (heap_m st m')"
    "\<And>m'. stack (heap_m st1 m') = stack (heap_m st m')"
    by (simp_all add: st1_def upd_mon_def)
  have s2: "mons st2 = mons st" "selmon st2 = selmon st" "heap_c st2 = heap_c st"
    "\<And>m'. clients (heap_m st2 m') = clients (heap_m st1 m')"
    "\<And>m'. set (stack (heap_m st m')) - {c} \<subseteq> set (stack (heap_m st2 m'))"
    using detachstack_stack [of st1 _ c]
    by (simp_all add: st2_def detachstack_fields s1)
  have s3: "mons st3 = mons st" "selmon st3 = selmon st"
    "heap_c st3 = (heap_c st)(c := (heap_c st c)\<lparr>mon := ?h\<rparr>)" "heap_m st3 = heap_m st2"
    by (simp_all add: st3_def upd_client_def s2)
  have e: "migrate_step m c rest st = attachstack c (attach c st3)"
    by (simp add: migrate_step_def Let_def st1_def st2_def st3_def)
  have mc: "mon (heap_c st3 c) = ?h"
    by (simp add: s3)
  show "mons (migrate_step m c rest st) = mons st"
    "selmon (migrate_step m c rest st) = selmon st"
    "heap_c (migrate_step m c rest st) = (heap_c st)(c := (heap_c st c)\<lparr>mon := ?h\<rparr>)"
    unfolding e by (simp_all add: attachstack_fields attach_fields s3)
  show "clients (heap_m (migrate_step m c rest st) m) = rest"
    unfolding e using assms
    by (simp add: attachstack_fields attach_fields mc s3(4) s2 s1)
  show "clients (heap_m (migrate_step m c rest st) ?h) = c # clients (heap_m st ?h)"
    unfolding e using assms
    by (simp add: attachstack_fields attach_fields mc s3(4) s2 s1)
  show "clients (heap_m (migrate_step m c rest st) m') = clients (heap_m st m')"
    if "m' \<noteq> m" "m' \<noteq> ?h"
    unfolding e using that
    by (simp add: attachstack_fields attach_fields mc s3(4) s2 s1)
  have "stack (heap_m (migrate_step m c rest st) ?h) = c # stack (heap_m st2 ?h)"
    unfolding e by (simp add: attachstack_fields attach_fields mc s3(4))
  with s2(5) [of ?h] show "insert c (set (stack (heap_m st ?h))) \<subseteq>
           set (stack (heap_m (migrate_step m c rest st) ?h))"
    by auto
qed

lemma migrate_result_aux:
  assumes "clients (heap_m st m) = cs" and "m \<noteq> hd (mons st)"
  shows "\<exists>st'. migrate m st = Some st' \<and> mons st' = mons st \<and> selmon st' = selmon st \<and>
           clients (heap_m st' m) = [] \<and>
           clients (heap_m st' (hd (mons st))) = rev cs @ clients (heap_m st (hd (mons st))) \<and>
           (\<forall>m'. m' \<noteq> m \<and> m' \<noteq> hd (mons st) \<longrightarrow>
              clients (heap_m st' m') = clients (heap_m st m')) \<and>
           (\<forall>c. heap_c st' c =
              (if c \<in> set cs then (heap_c st c)\<lparr>mon := hd (mons st)\<rparr> else heap_c st c)) \<and>
           set (stack (heap_m st (hd (mons st)))) \<union> set cs
             \<subseteq> set (stack (heap_m st' (hd (mons st))))"
  using assms
proof (induction cs arbitrary: st)
  case Nil
  then have "migrate m st = Some st"
    by (subst migrate.simps) simp
  with Nil show ?case by simp
next
  case (Cons c rest)
  let ?h = "hd (mons st)"
  define sa where "sa = migrate_step m c rest st"
  note ne = Cons.prems(2)
  have a: "mons sa = mons st" "selmon sa = selmon st"
    "heap_c sa = (heap_c st)(c := (heap_c st c)\<lparr>mon := ?h\<rparr>)"
    "clients (heap_m sa m) = rest"
    "clients (heap_m sa ?h) = c # clients (heap_m st ?h)"
    "\<And>m'. m' \<noteq> m \<Longrightarrow> m' \<noteq> ?h \<Longrightarrow> clients (heap_m sa m') = clients (heap_m st m')"
    "insert c (set (stack (heap_m st ?h))) \<subseteq> set (stack (heap_m sa ?h))"
    unfolding sa_def
    by (simp_all only: migrate_step_fields [OF ne] not_False_eq_True)
  have m: "migrate m st = migrate m sa"
    using Cons.prems(1) by (subst migrate.simps) (simp add: sa_def)
  have "m \<noteq> hd (mons sa)"
    using ne by (simp add: a)
  from Cons.IH [OF a(4) this] obtain st' where
    r: "migrate m sa = Some st'" "mons st' = mons sa" "selmon st' = selmon sa"
      "clients (heap_m st' m) = []"
      "clients (heap_m st' (hd (mons sa))) = rev rest @ clients (heap_m sa (hd (mons sa)))"
    and o: "\<forall>m'. m' \<noteq> m \<and> m' \<noteq> hd (mons sa) \<longrightarrow>
              clients (heap_m st' m') = clients (heap_m sa m')"
    and hc: "\<forall>c'. heap_c st' c' =
              (if c' \<in> set rest then (heap_c sa c')\<lparr>mon := hd (mons sa)\<rparr> else heap_c sa c')"
    and sk: "set (stack (heap_m sa (hd (mons sa)))) \<union> set rest
             \<subseteq> set (stack (heap_m st' (hd (mons sa))))"
    by blast
  have 1: "migrate m st = Some st'" "mons st' = mons st" "selmon st' = selmon st"
    "clients (heap_m st' m) = []"
    using r m by (simp_all add: a)
  have 2: "clients (heap_m st' ?h) = rev (c # rest) @ clients (heap_m st ?h)"
    using r(5) by (simp add: a)
  have 3: "\<forall>m'. m' \<noteq> m \<and> m' \<noteq> ?h \<longrightarrow> clients (heap_m st' m') = clients (heap_m st m')"
    using o by (simp add: a)
  have 4: "\<forall>c'. heap_c st' c' =
      (if c' \<in> set (c # rest) then (heap_c st c')\<lparr>mon := ?h\<rparr> else heap_c st c')"
    using hc by (simp add: a)
  have 5: "set (stack (heap_m st ?h)) \<union> set (c # rest) \<subseteq> set (stack (heap_m st' ?h))"
    using sk a(7) by (auto simp add: a(1))
  from 1 2 3 4 5 show ?case
    by (intro exI [of _ st'] conjI)
qed

lemmas migrate_result = migrate_result_aux [OF refl]

lemma remove1_last: "l \<notin> set xs \<Longrightarrow> remove1 l (xs @ [l]) = xs"
  by (induction xs) auto

lemma shrink_result_aux:
  assumes "mons st = keep @ ds" and "keep \<noteq> []" and "distinct (keep @ ds)"
  shows "\<exists>d' st'. shrink (length ds) d st = Some (Inr (d', st')) \<and> mons st' = keep \<and>
           clients (heap_m st' (hd keep)) =
             concat (map (\<lambda>m. rev (clients (heap_m st m))) ds) @ clients (heap_m st (hd keep)) \<and>
           (\<forall>m'. m' \<notin> set ds \<and> m' \<noteq> hd keep \<longrightarrow>
              clients (heap_m st' m') = clients (heap_m st m')) \<and>
           (\<forall>c. heap_c st' c =
              (if c \<in> (\<Union>m\<in>set ds. set (clients (heap_m st m)))
               then (heap_c st c)\<lparr>mon := hd keep\<rparr> else heap_c st c)) \<and>
           set (stack (heap_m st (hd keep))) \<union> (\<Union>m\<in>set ds. set (clients (heap_m st m)))
             \<subseteq> set (stack (heap_m st' (hd keep)))"
  using assms
proof (induction ds arbitrary: st d rule: rev_induct)
  case Nil
  then show ?case by simp
next
  case (snoc l ds)
  let ?h = "hd keep"
  let ?cl = "\<lambda>m. clients (heap_m st m)"
  note ms = snoc.prems(1) and ke = snoc.prems(2) and di = snoc.prems(3)
  have hd: "hd (mons st) = ?h" and la: "last (mons st) = l" and ne: "mons st \<noteq> []"
    using ke by (simp_all add: ms)
  have hk: "?h \<in> set keep"
    using ke by simp
  have lh: "l \<noteq> ?h" "l \<notin> set ds" "l \<notin> set keep" "?h \<notin> set ds"
    using di hk by auto
  from migrate_result [of l st] lh(1) obtain st1 where
    r: "migrate l st = Some st1" "mons st1 = mons st"
      "clients (heap_m st1 ?h) = rev (?cl l) @ ?cl ?h"
    and o: "\<forall>m'. m' \<noteq> l \<and> m' \<noteq> ?h \<longrightarrow> clients (heap_m st1 m') = ?cl m'"
    and hc: "\<forall>c. heap_c st1 c =
              (if c \<in> set (?cl l) then (heap_c st c)\<lparr>mon := ?h\<rparr> else heap_c st c)"
    and sk: "set (stack (heap_m st ?h)) \<union> set (?cl l) \<subseteq> set (stack (heap_m st1 ?h))"
    unfolding hd by blast
  define st2 where "st2 = (if l = selmon st1 then st1\<lparr>selmon := hd (mons st1)\<rparr> else st1)"
  define st3 where "st3 = cleanupmon l st2"
  have s2: "heap_m st2 = heap_m st1" "heap_c st2 = heap_c st1" "mons st2 = mons st1"
    by (simp_all add: st2_def)
  have rl: "remove1 l ((keep @ ds) @ [l]) = keep @ ds"
    using lh(2,3) by (intro remove1_last) simp
  have s3: "heap_m st3 = heap_m st1" "heap_c st3 = heap_c st1" "mons st3 = keep @ ds"
    using rl by (simp_all add: st3_def cleanupmon_def s2 r(2) ms)
  have di3: "distinct (keep @ ds)"
    using di by simp
  have sh: "shrink (length (ds @ [l])) d st =
      shrink (length ds) (d \<or> ?cl l \<noteq> []) st3"
    using ne by (simp add: la r(1) st3_def st2_def)
  from snoc.IH [OF s3(3) ke di3, of "d \<or> ?cl l \<noteq> []"] obtain d' st' where
    i: "shrink (length ds) (d \<or> ?cl l \<noteq> []) st3 = Some (Inr (d', st'))" "mons st' = keep"
      "clients (heap_m st' ?h) =
         concat (map (\<lambda>m. rev (clients (heap_m st3 m))) ds) @ clients (heap_m st3 ?h)"
    and io: "\<forall>m'. m' \<notin> set ds \<and> m' \<noteq> ?h \<longrightarrow> clients (heap_m st' m') = clients (heap_m st3 m')"
    and ihc: "\<forall>c. heap_c st' c =
              (if c \<in> (\<Union>m\<in>set ds. set (clients (heap_m st3 m)))
               then (heap_c st3 c)\<lparr>mon := ?h\<rparr> else heap_c st3 c)"
    and isk: "set (stack (heap_m st3 ?h)) \<union> (\<Union>m\<in>set ds. set (clients (heap_m st3 m)))
             \<subseteq> set (stack (heap_m st' ?h))"
    by blast
  have same: "clients (heap_m st1 m) = ?cl m" if "m \<in> set ds" for m
    using that lh o by auto
  then have mp: "map (\<lambda>m. rev (clients (heap_m st1 m))) ds = map (\<lambda>m. rev (?cl m)) ds"
    and un: "(\<Union>m\<in>set ds. set (clients (heap_m st1 m))) = (\<Union>m\<in>set ds. set (?cl m))"
    by simp_all
  have 1: "shrink (length (ds @ [l])) d st = Some (Inr (d', st'))"
    using sh i(1) by simp
  have 2: "clients (heap_m st' ?h) =
      concat (map (\<lambda>m. rev (?cl m)) (ds @ [l])) @ ?cl ?h"
    using i(3) by (simp add: mp s3 r(3))
  have 3: "\<forall>m'. m' \<notin> set (ds @ [l]) \<and> m' \<noteq> ?h \<longrightarrow> clients (heap_m st' m') = ?cl m'"
    using io o by (simp add: s3)
  have 4: "\<forall>c. heap_c st' c =
      (if c \<in> (\<Union>m\<in>set (ds @ [l]). set (?cl m))
       then (heap_c st c)\<lparr>mon := ?h\<rparr> else heap_c st c)"
    using ihc hc unfolding s3 un by auto
  have 5: "set (stack (heap_m st ?h)) \<union> (\<Union>m\<in>set (ds @ [l]). set (?cl m))
      \<subseteq> set (stack (heap_m st' ?h))"
    using isk sk unfolding s3 un by auto
  from 1 i(2) 2 3 4 5 show ?case
    by (intro exI [of _ d'] exI [of _ st'] conjI)
qed

lemma updategeom_shrink:
  assumes di: "distinct (mons st)"
    and nn: "1 \<le> length (unique_screens info)" "length (unique_screens info) < length (mons st)"
  shows "\<exists>d st'. updategeom E (Some info) ptr st = Some (Inr (d, st')) \<and>
           mons st' = take (length (unique_screens info)) (mons st) \<and>
           clients (heap_m st' (hd (mons st))) =
             concat (map (\<lambda>m. rev (clients (heap_m st m)))
                       (drop (length (unique_screens info)) (mons st)))
             @ clients (heap_m st (hd (mons st))) \<and>
           (\<forall>m'. m' \<notin> set (drop (length (unique_screens info)) (mons st)) \<and>
                 m' \<noteq> hd (mons st) \<longrightarrow>
              clients (heap_m st' m') = clients (heap_m st m')) \<and>
           (\<forall>c. heap_c st' c =
              (if c \<in> (\<Union>m\<in>set (drop (length (unique_screens info)) (mons st)).
                          set (clients (heap_m st m)))
               then (heap_c st c)\<lparr>mon := hd (mons st)\<rparr> else heap_c st c)) \<and>
           set (stack (heap_m st (hd (mons st)))) \<union>
             (\<Union>m\<in>set (drop (length (unique_screens info)) (mons st)).
                 set (clients (heap_m st m)))
             \<subseteq> set (stack (heap_m st' (hd (mons st))))"
proof -
  let ?nn = "length (unique_screens info)"
  let ?keep = "take ?nn (mons st)" and ?ds = "drop ?nn (mons st)"
  have ke: "?keep \<noteq> []"
    using nn by auto
  have hk: "hd ?keep = hd (mons st)"
    using nn by (intro hd_take) auto
  have len: "length ?ds = length (mons st) - ?nn"
    by simp
  have ms: "mons st = ?keep @ ?ds" and di': "distinct (?keep @ ?ds)"
    using di by simp_all
  from shrink_result_aux [OF ms ke di', of False] obtain d' st' where
    r: "shrink (length (mons st) - ?nn) False st = Some (Inr (d', st'))" "mons st' = ?keep"
    and p: "clients (heap_m st' (hd (mons st))) =
             concat (map (\<lambda>m. rev (clients (heap_m st m))) ?ds) @ clients (heap_m st (hd (mons st)))"
      "\<forall>m'. m' \<notin> set ?ds \<and> m' \<noteq> hd (mons st) \<longrightarrow>
              clients (heap_m st' m') = clients (heap_m st m')"
      "\<forall>c. heap_c st' c =
              (if c \<in> (\<Union>m\<in>set ?ds. set (clients (heap_m st m)))
               then (heap_c st c)\<lparr>mon := hd (mons st)\<rparr> else heap_c st c)"
      "set (stack (heap_m st (hd (mons st)))) \<union> (\<Union>m\<in>set ?ds. set (clients (heap_m st m)))
             \<subseteq> set (stack (heap_m st' (hd (mons st))))"
    unfolding len hk by blast
  define st2 where "st2 = (if d'
      then st'\<lparr>selmon := wintomon_root ptr (st'\<lparr>selmon := hd (mons st')\<rparr>)\<rparr> else st')"
  have s2: "mons st2 = mons st'" "heap_m st2 = heap_m st'" "heap_c st2 = heap_c st'"
    by (simp_all add: st2_def)
  have "updategeom E (Some info) ptr st = Some (Inr (d', st2))"
    using nn(2) ke by (simp add: updategeom_def Let_def r st2_def)
  with r(2) p show ?thesis
    by (intro exI [of _ d'] exI [of _ st2] conjI) (simp_all only: s2 simp_thms)
qed

lemma detachstack_other:
  "m' \<noteq> mon (heap_c st c) \<Longrightarrow> stack (heap_m (detachstack c st) m') = stack (heap_m st m')"
  by (simp add: detachstack_def upd_mon_def Let_def)

lemma migrate_step_stack:
  assumes "m \<noteq> hd (mons st)" and "mon (heap_c st c) \<noteq> hd (mons st)"
  shows "stack (heap_m (migrate_step m c rest st) (hd (mons st))) =
           c # stack (heap_m st (hd (mons st)))"
proof -
  let ?h = "hd (mons st)"
  define st1 where "st1 = upd_mon m (\<lambda>M. M\<lparr>clients := rest\<rparr>) st"
  define st2 where "st2 = detachstack c st1"
  define st3 where "st3 = upd_client c (\<lambda>C. C\<lparr>mon := hd (mons st2)\<rparr>) st2"
  have s1: "mons st1 = mons st" "heap_c st1 = heap_c st"
    "\<And>m'. stack (heap_m st1 m') = stack (heap_m st m')"
    by (simp_all add: st1_def upd_mon_def)
  have s2: "mons st2 = mons st" "heap_c st2 = heap_c st"
    "stack (heap_m st2 ?h) = stack (heap_m st ?h)"
    using assms(2) detachstack_other [of ?h st1 c]
    by (simp_all add: st2_def detachstack_fields s1)
  have s3: "heap_c st3 = (heap_c st)(c := (heap_c st c)\<lparr>mon := ?h\<rparr>)" "heap_m st3 = heap_m st2"
    by (simp_all add: st3_def upd_client_def s2)
  have e: "migrate_step m c rest st = attachstack c (attach c st3)"
    by (simp add: migrate_step_def Let_def st1_def st2_def st3_def)
  have mc: "mon (heap_c st3 c) = ?h"
    by (simp add: s3)
  show ?thesis
    unfolding e by (simp add: attachstack_fields attach_fields mc s3(2) s2)
qed

lemma migrate_stack_aux:
  assumes "migrate m st = Some st'" and "clients (heap_m st m) = cs"
    and "m \<noteq> hd (mons st)" and "distinct cs"
    and "\<forall>c \<in> set cs. mon (heap_c st c) \<noteq> hd (mons st)"
  shows "stack (heap_m st' (hd (mons st))) = rev cs @ stack (heap_m st (hd (mons st)))"
  using assms
proof (induction cs arbitrary: st)
  case Nil
  then have "migrate m st = Some st"
    by (subst migrate.simps) simp
  with Nil.prems(1) show ?case by simp
next
  case (Cons c rest)
  let ?h = "hd (mons st)"
  define sa where "sa = migrate_step m c rest st"
  note ne = Cons.prems(3)
  have a: "mons sa = mons st"
    "heap_c sa = (heap_c st)(c := (heap_c st c)\<lparr>mon := ?h\<rparr>)"
    "clients (heap_m sa m) = rest"
    unfolding sa_def by (simp_all only: migrate_step_fields [OF ne])
  have st: "stack (heap_m sa ?h) = c # stack (heap_m st ?h)"
    unfolding sa_def using Cons.prems(5) by (intro migrate_step_stack [OF ne]) simp
  have m: "migrate m sa = Some st'"
    using Cons.prems(1,2) by (subst (asm) migrate.simps) (simp add: sa_def)
  have "m \<noteq> hd (mons sa)" "distinct rest"
    "\<forall>c' \<in> set rest. mon (heap_c sa c') \<noteq> hd (mons sa)"
    using ne Cons.prems(4,5) by (auto simp add: a)
  from Cons.IH [OF m a(3) this]
  show ?case
    by (simp add: a(1) st)
qed

lemmas migrate_stack = migrate_stack_aux [OF _ refl]

lemma shrink_stack:
  assumes "mons st = keep @ ds" and "keep \<noteq> []" and "distinct (keep @ ds)"
    and "shrink (length ds) d st = Some (Inr (d', st'))"
    and "\<forall>m \<in> set ds. \<forall>c \<in> set (clients (heap_m st m)). mon (heap_c st c) = m"
    and "distinct (concat (map (\<lambda>m. clients (heap_m st m)) ds))"
  shows "stack (heap_m st' (hd keep)) =
           concat (map (\<lambda>m. rev (clients (heap_m st m))) ds) @ stack (heap_m st (hd keep))"
  using assms
proof (induction ds arbitrary: st d rule: rev_induct)
  case Nil
  then show ?case by simp
next
  case (snoc l ds)
  let ?h = "hd keep"
  let ?cl = "\<lambda>m. clients (heap_m st m)"
  note ms = snoc.prems(1) and ke = snoc.prems(2) and di = snoc.prems(3)
  have hd: "hd (mons st) = ?h" and la: "last (mons st) = l" and ne: "mons st \<noteq> []"
    using ke by (simp_all add: ms)
  have hk: "?h \<in> set keep"
    using ke by simp
  have lh: "l \<noteq> ?h" "l \<notin> set ds" "l \<notin> set keep" "?h \<notin> set ds"
    using di hk by auto
  from snoc.prems(6) have dl: "distinct (?cl l)"
    and dd: "distinct (concat (map ?cl ds))"
    and dj: "\<And>m c. m \<in> set ds \<Longrightarrow> c \<in> set (?cl m) \<Longrightarrow> c \<notin> set (?cl l)"
    by auto
  from snoc.prems(5) lh(1) have ol: "\<forall>c \<in> set (?cl l). mon (heap_c st c) \<noteq> hd (mons st)"
    by (simp add: hd)
  from migrate_result [of l st] lh(1) obtain st1 where
    r: "migrate l st = Some st1" "mons st1 = mons st"
    and o: "\<forall>m'. m' \<noteq> l \<and> m' \<noteq> ?h \<longrightarrow> clients (heap_m st1 m') = ?cl m'"
    and hc: "\<forall>c. heap_c st1 c =
              (if c \<in> set (?cl l) then (heap_c st c)\<lparr>mon := ?h\<rparr> else heap_c st c)"
    unfolding hd by blast
  have s1: "stack (heap_m st1 ?h) = rev (?cl l) @ stack (heap_m st ?h)"
    using migrate_stack [OF r(1) _ dl ol] lh(1) by (simp add: hd)
  define st2 where "st2 = (if l = selmon st1 then st1\<lparr>selmon := hd (mons st1)\<rparr> else st1)"
  define st3 where "st3 = cleanupmon l st2"
  have s2: "heap_m st2 = heap_m st1" "heap_c st2 = heap_c st1" "mons st2 = mons st1"
    by (simp_all add: st2_def)
  have rl: "remove1 l ((keep @ ds) @ [l]) = keep @ ds"
    using lh(2,3) by (intro remove1_last) simp
  have s3: "heap_m st3 = heap_m st1" "heap_c st3 = heap_c st1" "mons st3 = keep @ ds"
    using rl by (simp_all add: st3_def cleanupmon_def s2 r(2) ms)
  have di3: "distinct (keep @ ds)"
    using di by simp
  have sh: "shrink (length ds) (d \<or> ?cl l \<noteq> []) st3 = Some (Inr (d', st'))"
    using snoc.prems(4) ne by (simp add: la r(1) st3_def st2_def)
  have same: "clients (heap_m st1 m) = ?cl m" if "m \<in> set ds" for m
    using that lh o by auto
  then have mp: "map (\<lambda>m. clients (heap_m st1 m)) ds = map ?cl ds"
    and mr: "map (\<lambda>m. rev (clients (heap_m st1 m))) ds = map (\<lambda>m. rev (?cl m)) ds"
    by simp_all
  have own3: "\<forall>m \<in> set ds. \<forall>c \<in> set (clients (heap_m st3 m)). mon (heap_c st3 c) = m"
  proof (intro ballI)
    fix m c
    assume m: "m \<in> set ds" and "c \<in> set (clients (heap_m st3 m))"
    then have c: "c \<in> set (?cl m)"
      by (simp add: s3 same)
    with dj [OF m] have "heap_c st1 c = heap_c st c"
      using hc by simp
    with snoc.prems(5) m c show "mon (heap_c st3 c) = m"
      by (simp add: s3)
  qed
  have dd3: "distinct (concat (map (\<lambda>m. clients (heap_m st3 m)) ds))"
    using dd by (simp add: s3 mp)
  from snoc.IH [OF s3(3) ke di3 sh own3 dd3]
  show ?case
    by (simp add: s3 mr s1)
qed

lemma updategeom_stack:
  assumes "distinct (mons st)"
    and "1 \<le> length (unique_screens info)" and "length (unique_screens info) < length (mons st)"
    and "updategeom E (Some info) ptr st = Some (Inr (d, st'))"
    and "\<forall>m \<in> set (drop (length (unique_screens info)) (mons st)).
           \<forall>c \<in> set (clients (heap_m st m)). mon (heap_c st c) = m"
    and "distinct (concat (map (\<lambda>m. clients (heap_m st m))
                             (drop (length (unique_screens info)) (mons st))))"
  shows "stack (heap_m st' (hd (mons st))) =
           concat (map (\<lambda>m. rev (clients (heap_m st m)))
                     (drop (length (unique_screens info)) (mons st)))
           @ stack (heap_m st (hd (mons st)))"
proof -
  let ?nn = "length (unique_screens info)"
  let ?keep = "take ?nn (mons st)" and ?ds = "drop ?nn (mons st)"
  have ke: "?keep \<noteq> []"
    using assms(2,3) by auto
  have hk: "hd ?keep = hd (mons st)"
    using assms(2,3) by (intro hd_take) auto
  have len: "length ?ds = length (mons st) - ?nn"
    by simp
  have ms: "mons st = ?keep @ ?ds" and di': "distinct (?keep @ ?ds)"
    using assms(1) by simp_all
  from shrink_result_aux [OF ms ke di', of False] obtain d0 st0 where
    s: "shrink (length ?ds) False st = Some (Inr (d0, st0))" and m0: "mons st0 = ?keep"
    by blast
  define st2 where "st2 = (if d0
      then st0\<lparr>selmon := wintomon_root ptr (st0\<lparr>selmon := hd (mons st0)\<rparr>)\<rparr> else st0)"
  have "updategeom E (Some info) ptr st = Some (Inr (d0, st2))"
    using assms(3) ke s m0 by (simp add: updategeom_def Let_def st2_def)
  with assms(4) have "st' = st2"
    by simp
  then have h: "heap_m st' = heap_m st0"
    by (simp add: st2_def)
  from shrink_stack [OF ms ke di' s assms(5,6)] show ?thesis
    by (simp add: h hk)
qed

text \<open>
  C2, as the code has it. Xinerama reports \<open>nn\<close> distinct screens, at least one and
  fewer than there are monitors. \<open>updategeom\<close> returns; the first \<open>nn\<close> monitors of
  the chain survive; every client of a removed monitor is owned by the first monitor,
  is in its stack list, and is otherwise the record it was; no other client record
  changes. The arrangement list of the first monitor has the clients of the removed
  monitors in front of its own, each removed monitor's clients in reverse order and
  the monitors in chain order. The arrangement lists of the other surviving monitors
  are unchanged. Where the removed monitors' lists hold each client once and every
  client of a list points to the monitor of that list, the stack list of the first
  monitor has the same clients in the same order in front of its own.
\<close>

theorem updategeom_migrates_reversed:
  assumes "distinct (mons st)"
    and "1 \<le> length (unique_screens info)"
    and "length (unique_screens info) < length (mons st)"
  shows "\<exists>d st'. updategeom E (Some info) ptr st = Some (Inr (d, st')) \<and>
           mons st' = take (length (unique_screens info)) (mons st) \<and>
           clients (heap_m st' (hd (mons st))) =
             concat (map (\<lambda>m. rev (clients (heap_m st m)))
                       (drop (length (unique_screens info)) (mons st)))
             @ clients (heap_m st (hd (mons st))) \<and>
           (\<forall>m \<in> set (drop (length (unique_screens info)) (mons st)).
              \<forall>c \<in> set (clients (heap_m st m)).
                c \<in> set (stack (heap_m st' (hd (mons st)))) \<and>
                heap_c st' c = (heap_c st c)\<lparr>mon := hd (mons st)\<rparr>) \<and>
           (\<forall>c. heap_c st' c = heap_c st c \<or>
                heap_c st' c = (heap_c st c)\<lparr>mon := hd (mons st)\<rparr>) \<and>
           (\<forall>m \<in> set (take (length (unique_screens info)) (mons st)).
              m \<noteq> hd (mons st) \<longrightarrow> clients (heap_m st' m) = clients (heap_m st m)) \<and>
           ((\<forall>m \<in> set (drop (length (unique_screens info)) (mons st)).
               \<forall>c \<in> set (clients (heap_m st m)). mon (heap_c st c) = m) \<and>
            distinct (concat (map (\<lambda>m. clients (heap_m st m))
                                (drop (length (unique_screens info)) (mons st)))) \<longrightarrow>
            stack (heap_m st' (hd (mons st))) =
              concat (map (\<lambda>m. rev (clients (heap_m st m)))
                        (drop (length (unique_screens info)) (mons st)))
              @ stack (heap_m st (hd (mons st))))"
proof -
  let ?nn = "length (unique_screens info)"
  let ?ds = "drop ?nn (mons st)"
  let ?h = "hd (mons st)"
  from updategeom_shrink [OF assms, of E ptr] obtain d st' where
    r: "updategeom E (Some info) ptr st = Some (Inr (d, st'))"
      "mons st' = take ?nn (mons st)"
      "clients (heap_m st' ?h) =
         concat (map (\<lambda>m. rev (clients (heap_m st m))) ?ds) @ clients (heap_m st ?h)"
    and o: "\<forall>m'. m' \<notin> set ?ds \<and> m' \<noteq> ?h \<longrightarrow> clients (heap_m st' m') = clients (heap_m st m')"
    and hc: "\<forall>c. heap_c st' c =
              (if c \<in> (\<Union>m\<in>set ?ds. set (clients (heap_m st m)))
               then (heap_c st c)\<lparr>mon := ?h\<rparr> else heap_c st c)"
    and sk: "set (stack (heap_m st ?h)) \<union> (\<Union>m\<in>set ?ds. set (clients (heap_m st m)))
             \<subseteq> set (stack (heap_m st' ?h))"
    by blast
  have "set (take ?nn (mons st)) \<inter> set ?ds = {}"
    using assms(1) by (intro set_take_disj_set_drop_if_distinct) simp_all
  then have dj: "m \<notin> set ?ds" if "m \<in> set (take ?nn (mons st))" for m
    using that by auto
  have 1: "\<forall>m \<in> set ?ds. \<forall>c \<in> set (clients (heap_m st m)).
      c \<in> set (stack (heap_m st' ?h)) \<and> heap_c st' c = (heap_c st c)\<lparr>mon := ?h\<rparr>"
    using sk hc by auto
  have 2: "\<forall>c. heap_c st' c = heap_c st c \<or> heap_c st' c = (heap_c st c)\<lparr>mon := ?h\<rparr>"
    using hc by simp
  have 3: "\<forall>m \<in> set (take ?nn (mons st)). m \<noteq> ?h \<longrightarrow>
      clients (heap_m st' m) = clients (heap_m st m)"
    using o dj by simp
  have 4: "(\<forall>m \<in> set ?ds. \<forall>c \<in> set (clients (heap_m st m)). mon (heap_c st c) = m) \<and>
            distinct (concat (map (\<lambda>m. clients (heap_m st m)) ?ds)) \<longrightarrow>
            stack (heap_m st' ?h) =
              concat (map (\<lambda>m. rev (clients (heap_m st m))) ?ds) @ stack (heap_m st ?h)"
    using updategeom_stack [OF assms r(1)] by blast
  from r 1 2 3 4 show ?thesis
    by (intro exI [of _ d] exI [of _ st'] conjI)
qed

lemma ex_unplug_fields:
  "mons ex_unplug = [0, 1]"
  "clients (heap_m ex_unplug 0) = [3, 2, 1]"
  "clients (heap_m ex_unplug (Suc 0)) = [5, 4]"
  "stack (heap_m ex_unplug 0) = [1, 2, 3]"
  "mon (heap_c ex_unplug c) = (if c = 4 \<or> c = 5 then 1 else 0)"
  by (simp_all add: ex_unplug_def ex_two_def ex_wm_def ex_monitor_def ex_client_def)

lemma ex_unique: "unique_screens [ex_screen] = [ex_screen]"
  by (simp add: unique_screens_def isuniquegeom_def)

text \<open>
  The second output is unplugged: the first monitor takes the clients 4 and 5 at the
  head of both of its lists.
\<close>

theorem updategeom_migrates_reversed_witness:
  "result_state (updategeom ex_env (Some [ex_screen]) None ex_unplug) \<noteq> None \<and>
   mons (the (result_state (updategeom ex_env (Some [ex_screen]) None ex_unplug))) = [0] \<and>
   clients (heap_m (the (result_state (updategeom ex_env (Some [ex_screen]) None ex_unplug))) 0)
     = [4, 5, 3, 2, 1] \<and>
   stack (heap_m (the (result_state (updategeom ex_env (Some [ex_screen]) None ex_unplug))) 0)
     = [4, 5, 1, 2, 3] \<and>
   mon (heap_c (the (result_state (updategeom ex_env (Some [ex_screen]) None ex_unplug))) 4) = 0 \<and>
   mon (heap_c (the (result_state (updategeom ex_env (Some [ex_screen]) None ex_unplug))) 5) = 0"
  using updategeom_migrates_reversed [of ex_unplug "[ex_screen]" ex_env None]
  by (auto simp add: ex_unplug_fields ex_unique result_state_def)

text \<open>
  C2 as stated fails on the order: the loop takes the clients of the removed monitor
  from the head of its list and \<open>attach\<close> puts each at the head of the first monitor's
  list. Monitor 1 has 5 before 4; after \<open>updategeom\<close> the first monitor has 4 before 5.
\<close>

theorem updategeom_order_counterexample:
  "mons ex_unplug = [0, 1] \<and>
   clients (heap_m ex_unplug 0) = [3, 2, 1] \<and>
   clients (heap_m ex_unplug 1) = [5, 4] \<and>
   length (unique_screens [ex_screen]) = 1 \<and>
   result_state (updategeom ex_env (Some [ex_screen]) None ex_unplug) \<noteq> None \<and>
   clients (heap_m (the (result_state (updategeom ex_env (Some [ex_screen]) None ex_unplug))) 0)
     = [4, 5, 3, 2, 1]"
proof -
  have "distinct (mons ex_unplug)" "1 \<le> length (unique_screens [ex_screen])"
    "length (unique_screens [ex_screen]) < length (mons ex_unplug)"
    by (simp_all add: ex_unplug_fields ex_unique)
  from updategeom_shrink [OF this, of ex_env None] obtain d st' where
    "updategeom ex_env (Some [ex_screen]) None ex_unplug = Some (Inr (d, st'))"
    "clients (heap_m st' 0) = [4, 5, 3, 2, 1]"
    by (auto simp add: ex_unplug_fields ex_unique)
  then show ?thesis
    by (simp add: ex_unplug_fields ex_unique result_state_def)
qed

subsection \<open>The calls that return\<close>

text \<open>
  With the animation off \<open>animateclient\<close> does not call itself, and the divisors of
  the layouts are the numbers of clients still to place: the layouts, \<open>arrange\<close> and
  \<open>view\<close> return.
\<close>

lemma frame_arr_calm:
  assumes "frame_arr st st'"
  shows "calm st' = calm st"
  by (simp add: calm_def frame_arr_globals(4) [OF assms] frame_arr_workarea(7) [OF assms])

lemma animateclient_calm:
  assumes "\<not> animated st"
  shows "\<exists>st'. animateclient E st c x y w h frames False = Some st' \<and> frame_arr st st'"
proof -
  have "\<not> anim_far st c x y w h"
    using assms by (simp add: anim_far_def Let_def)
  then have "\<exists>st'. animateclient E st c x y w h frames False = Some st'"
    by (subst animateclient.simps) (simp add: Let_def)
  then obtain st' where a: "animateclient E st c x y w h frames False = Some st'"
    by blast
  with animateclient_frame_arr [OF a] show ?thesis by simp
qed

lemma count_tiled_filter:
  "0 \<le> n \<Longrightarrow> n + int (length xs) < 2 ^ 32 \<Longrightarrow>
   count_tiled st (nexttiled st xs) n = n + int (length (filter (is_tiled st) xs))"
proof (induction xs arbitrary: n)
  case Nil
  then show ?case by simp
next
  case (Cons a xs)
  show ?case
  proof (cases "is_tiled st a")
    case True
    have "u32 (n + 1) = n + 1"
      using Cons.prems by (intro u32_id) simp_all
    then show ?thesis
      using True Cons.prems Cons.IH [of "n + 1"] by (simp add: nexttiled_Cons)
  next
    case False
    then show ?thesis
      using Cons.prems Cons.IH [of n] by (simp add: nexttiled_Cons)
  qed
qed

lemma udiv_Some:
  assumes "0 < b" and "b < 2 ^ 32"
  shows "\<exists>q. udiv a b = Some q"
  using assms by (simp add: udiv_def u32_def)

lemma filter_tiled_frame:
  assumes "frame_arr st st'"
  shows "filter (is_tiled st') xs = filter (is_tiled st) xs"
  by (simp add: frame_arr_is_tiled [OF assms] cong: filter_cong)

lemma tile_loop_returns:
  assumes "\<not> animated st" and "0 \<le> i"
    and "i + int (length (filter (is_tiled st) xs)) = n" and "n < 2 ^ 32"
  shows "\<exists>st'. tile_loop E m n mwd fc i myo tyo (nexttiled st xs) st = Some st'"
  using assms
proof (induction xs arbitrary: i myo tyo st)
  case Nil
  then show ?case by simp
next
  case (Cons a xs)
  show ?case
  proof (cases "is_tiled st a")
    case False
    with Cons.IH [of st i myo tyo] Cons.prems show ?thesis
      by (simp add: nexttiled_Cons)
  next
    case True
    let ?k = "int (length (filter (is_tiled st) xs))"
    from Cons.prems True have n: "i + 1 + ?k = n" "i < n" "0 \<le> ?k"
      by simp_all
    have ui: "u32 (i + 1) = i + 1"
      using Cons.prems n by (intro u32_id) simp_all
    have next_ok: "\<exists>st'. tile_loop E m n mwd fc (u32 (i + 1)) myo' tyo' (nexttiled st1 xs) st1 = Some st'"
      if "frame_arr st st1" for st1 myo' tyo'
    proof -
      have "\<not> animated st1"
        using Cons.prems(1) by (simp add: frame_arr_globals(4) [OF that])
      moreover have "i + 1 + int (length (filter (is_tiled st1) xs)) = n"
        using n by (simp add: filter_tiled_frame [OF that])
      ultimately show ?thesis
        unfolding ui using Cons.IH [of st1 "i + 1" myo' tyo'] Cons.prems by simp
    qed
    show ?thesis
    proof (cases "i < u32 (nmaster (heap_m st m))")
      case M: True
      have "0 < min n (u32 (nmaster (heap_m st m))) - i" "min n (u32 (nmaster (heap_m st m))) - i < 2 ^ 32"
        using M n Cons.prems by simp_all
      from udiv_Some [OF this] obtain h where
        h: "udiv (wh (heap_m st m) - myo) (min n (u32 (nmaster (heap_m st m))) - i) = Some h"
        by blast
      from animateclient_calm [OF Cons.prems(1)] obtain st1 where
        a: "animateclient E st a (wx (heap_m st m)) (s32 (wy (heap_m st m) + myo))
              (s32 (mwd - 2 * bw (heap_c st a))) (s32 (h - 2 * bw (heap_c st a))) fc False = Some st1"
        and f: "frame_arr st st1"
        by blast
      show ?thesis
        using True M h a next_ok [OF f] by (simp add: nexttiled_Cons)
    next
      case S: False
      have "0 < n - i" "n - i < 2 ^ 32"
        using n Cons.prems by simp_all
      from udiv_Some [OF this] obtain h where
        h: "udiv (wh (heap_m st m) - tyo) (n - i) = Some h"
        by blast
      from animateclient_calm [OF Cons.prems(1)] obtain st1 where
        a: "animateclient E st a (s32 (wx (heap_m st m) + mwd)) (s32 (wy (heap_m st m) + tyo))
              (s32 (ww (heap_m st m) - mwd - 2 * bw (heap_c st a)))
              (s32 (h - 2 * bw (heap_c st a))) fc False = Some st1"
        and f: "frame_arr st st1"
        by blast
      show ?thesis
        using True S h a next_ok [OF f] by (simp add: nexttiled_Cons)
    qed
  qed
qed

lemma monocle_loop_returns:
  assumes "\<not> animated st"
  shows "\<exists>st'. monocle_loop E m (nexttiled st xs) st = Some st'"
  using assms
proof (induction xs arbitrary: st)
  case Nil
  then show ?case by simp
next
  case (Cons a xs)
  show ?case
  proof (cases "is_tiled st a")
    case False
    with Cons.IH [of st] Cons.prems show ?thesis
      by (simp add: nexttiled_Cons)
  next
    case True
    from animateclient_calm [OF Cons.prems] obtain st1 where
      a: "animateclient E st a (wx (heap_m st m)) (wy (heap_m st m))
            (ww (heap_m st m) - 2 * bw (heap_c st a))
            (wh (heap_m st m) - 2 * bw (heap_c st a)) 10 False = Some st1"
      and f: "frame_arr st st1"
      by blast
    have "\<not> animated st1"
      using Cons.prems by (simp add: frame_arr_globals(4) [OF f])
    from Cons.IH [OF this] show ?thesis
      using True a by (simp add: nexttiled_Cons)
  qed
qed

lemma bstack_loop_returns:
  assumes "\<not> animated st" and "0 \<le> i"
    and "i + int (length (filter (is_tiled st) xs)) = n" and "n < 2 ^ 32"
  shows "\<exists>st'. bstack_loop E m n mhd tw ty i mxo tx (nexttiled st xs) st = Some st'"
  using assms
proof (induction xs arbitrary: i mxo tx st)
  case Nil
  then show ?case by simp
next
  case (Cons a xs)
  show ?case
  proof (cases "is_tiled st a")
    case False
    with Cons.IH [of st i mxo tx] Cons.prems show ?thesis
      by (simp add: nexttiled_Cons)
  next
    case True
    let ?k = "int (length (filter (is_tiled st) xs))"
    from Cons.prems True have n: "i + 1 + ?k = n" "i < n" "0 \<le> ?k"
      by simp_all
    have ui: "u32 (i + 1) = i + 1"
      using Cons.prems n by (intro u32_id) simp_all
    have next_ok: "\<exists>st'. bstack_loop E m n mhd tw ty (u32 (i + 1)) mxo' tx' (nexttiled st1 xs) st1 = Some st'"
      if "frame_arr st st1" for st1 mxo' tx'
    proof -
      have "\<not> animated st1"
        using Cons.prems(1) by (simp add: frame_arr_globals(4) [OF that])
      moreover have "i + 1 + int (length (filter (is_tiled st1) xs)) = n"
        using n by (simp add: filter_tiled_frame [OF that])
      ultimately show ?thesis
        unfolding ui using Cons.IH [of st1 "i + 1" mxo' tx'] Cons.prems by simp
    qed
    show ?thesis
    proof (cases "i < u32 (nmaster (heap_m st m))")
      case M: True
      have "0 < min n (u32 (nmaster (heap_m st m))) - i" "min n (u32 (nmaster (heap_m st m))) - i < 2 ^ 32"
        using M n Cons.prems by simp_all
      from udiv_Some [OF this] obtain w where
        w: "udiv (ww (heap_m st m) - mxo) (min n (u32 (nmaster (heap_m st m))) - i) = Some w"
        by blast
      from animateclient_calm [OF Cons.prems(1)] obtain st1 where
        a: "animateclient E st a (wx (heap_m st m) + mxo) (wy (heap_m st m))
              (s32 w - 2 * bw (heap_c st a)) (mhd - 2 * bw (heap_c st a)) 10 False = Some st1"
        and f: "frame_arr st st1"
        by blast
      show ?thesis
        using True M w a next_ok [OF f] by (simp add: nexttiled_Cons)
    next
      case S: False
      from animateclient_calm [OF Cons.prems(1)] obtain st1 where
        a: "animateclient E st a tx ty (tw - 2 * bw (heap_c st a))
              (wh (heap_m st m) - mhd - 2 * bw (heap_c st a)) 10 False = Some st1"
        and f: "frame_arr st st1"
        by blast
      show ?thesis
        using True S a next_ok [OF f] by (simp add: nexttiled_Cons)
    qed
  qed
qed

lemma bstackhoriz_loop_returns:
  assumes "\<not> animated st" and "0 \<le> i"
    and "i + int (length (filter (is_tiled st) xs)) = n" and "n < 2 ^ 32"
  shows "\<exists>st'. bstackhoriz_loop E m n mhd th tx i mxo ty (nexttiled st xs) st = Some st'"
  using assms
proof (induction xs arbitrary: i mxo ty st)
  case Nil
  then show ?case by simp
next
  case (Cons a xs)
  show ?case
  proof (cases "is_tiled st a")
    case False
    with Cons.IH [of st i mxo ty] Cons.prems show ?thesis
      by (simp add: nexttiled_Cons)
  next
    case True
    let ?k = "int (length (filter (is_tiled st) xs))"
    from Cons.prems True have n: "i + 1 + ?k = n" "i < n" "0 \<le> ?k"
      by simp_all
    have ui: "u32 (i + 1) = i + 1"
      using Cons.prems n by (intro u32_id) simp_all
    have next_ok: "\<exists>st'. bstackhoriz_loop E m n mhd th tx (u32 (i + 1)) mxo' ty' (nexttiled st1 xs) st1 = Some st'"
      if "frame_arr st st1" for st1 mxo' ty'
    proof -
      have "\<not> animated st1"
        using Cons.prems(1) by (simp add: frame_arr_globals(4) [OF that])
      moreover have "i + 1 + int (length (filter (is_tiled st1) xs)) = n"
        using n by (simp add: filter_tiled_frame [OF that])
      ultimately show ?thesis
        unfolding ui using Cons.IH [of st1 "i + 1" mxo' ty'] Cons.prems by simp
    qed
    show ?thesis
    proof (cases "i < u32 (nmaster (heap_m st m))")
      case M: True
      have "0 < min n (u32 (nmaster (heap_m st m))) - i" "min n (u32 (nmaster (heap_m st m))) - i < 2 ^ 32"
        using M n Cons.prems by simp_all
      from udiv_Some [OF this] obtain w where
        w: "udiv (ww (heap_m st m) - mxo) (min n (u32 (nmaster (heap_m st m))) - i) = Some w"
        by blast
      from animateclient_calm [OF Cons.prems(1)] obtain st1 where
        a: "animateclient E st a (wx (heap_m st m) + mxo) (wy (heap_m st m))
              (s32 w - 2 * bw (heap_c st a)) (mhd - 2 * bw (heap_c st a)) 10 False = Some st1"
        and f: "frame_arr st st1"
        by blast
      show ?thesis
        using True M w a next_ok [OF f] by (simp add: nexttiled_Cons)
    next
      case S: False
      from animateclient_calm [OF Cons.prems(1)] obtain st1 where
        a: "animateclient E st a tx ty (ww (heap_m st m) - 2 * bw (heap_c st a))
              (th - 2 * bw (heap_c st a)) 10 False = Some st1"
        and f: "frame_arr st st1"
        by blast
      show ?thesis
        using True S a next_ok [OF f] by (simp add: nexttiled_Cons)
    qed
  qed
qed

lemma udiv_diff_Some:
  assumes "u32 b < n" and "n < 2 ^ 32"
  shows "\<exists>q. udiv a (n - b) = Some q"
proof -
  have "0 \<le> u32 b"
    by (simp add: u32_def)
  have "u32 (n - b) = u32 (n - u32 b)"
    by (simp add: u32_def mod_diff_right_eq)
  also have "\<dots> = n - u32 b"
    using assms \<open>0 \<le> u32 b\<close> by (intro u32_id) simp_all
  finally have "u32 (n - b) \<noteq> 0"
    using assms by simp
  then show ?thesis
    by (simp add: udiv_def)
qed

lemma calm_count:
  assumes "calm st"
  shows "count_tiled st (nexttiled st (clients (heap_m st m))) 0 =
           int (length (filter (is_tiled st) (clients (heap_m st m))))"
    and "int (length (filter (is_tiled st) (clients (heap_m st m)))) < 2 ^ 32"
proof -
  have l: "int (length (clients (heap_m st m))) < 2 ^ 32"
    using assms by (simp add: calm_def)
  then show "count_tiled st (nexttiled st (clients (heap_m st m))) 0 =
           int (length (filter (is_tiled st) (clients (heap_m st m))))"
    using count_tiled_filter [of 0 "clients (heap_m st m)" st] by simp
  have "length (filter (is_tiled st) (clients (heap_m st m))) \<le> length (clients (heap_m st m))"
    by simp
  with l show "int (length (filter (is_tiled st) (clients (heap_m st m)))) < 2 ^ 32"
    by linarith
qed

lemma tile_returns:
  assumes "calm st"
  shows "\<exists>st'. tile E m st = Some st'"
proof -
  have na: "\<not> animated st"
    using assms by (simp add: calm_def)
  show ?thesis
    unfolding tile_def Let_def calm_count(1) [OF assms]
    using tile_loop_returns [OF na _ _ calm_count(2) [OF assms, of m], of 0 "clients (heap_m st m)"]
    by simp
qed

lemma monocle_returns:
  assumes "calm st"
  shows "\<exists>st'. monocle E m st = Some st'"
proof -
  have na: "\<not> animated st"
    using assms by (simp add: calm_def)
  let ?n = "count_visible st (clients (heap_m st m)) 0"
  define st1 where "st1 = (if ?n > 0
                 then st\<lparr>heap_m := (heap_m st)
                        (m := (heap_m st m)\<lparr>ltsymbol := take 15 (''['' @ printf_d (s32 ?n) @ '']'')\<rparr>)\<rparr>
                 else st)"
  have "\<not> animated st1"
    using na by (simp add: st1_def)
  from monocle_loop_returns [OF this] show ?thesis
    unfolding monocle_def Let_def st1_def [symmetric] by blast
qed

lemma bstack_returns:
  assumes "calm st"
  shows "\<exists>st'. bstack E m st = Some st'"
proof -
  have na: "\<not> animated st"
    using assms by (simp add: calm_def)
  let ?n = "int (length (filter (is_tiled st) (clients (heap_m st m))))"
  note lp = bstack_loop_returns [OF na _ _ calm_count(2) [OF assms, of m], of 0 "clients (heap_m st m)"]
  show ?thesis
  proof (cases "?n > u32 (nmaster (heap_m st m))")
    case True
    from udiv_diff_Some [OF True calm_count(2) [OF assms]] obtain tw where
      "udiv (ww (heap_m st m)) (?n - nmaster (heap_m st m)) = Some tw"
      by blast
    with True lp show ?thesis
      unfolding bstack_def Let_def calm_count(1) [OF assms] by simp
  next
    case False
    with lp show ?thesis
      unfolding bstack_def Let_def calm_count(1) [OF assms] by simp
  qed
qed

lemma bstackhoriz_returns:
  assumes "calm st"
  shows "\<exists>st'. bstackhoriz E m st = Some st'"
proof -
  have na: "\<not> animated st"
    using assms by (simp add: calm_def)
  let ?n = "int (length (filter (is_tiled st) (clients (heap_m st m))))"
  note lp = bstackhoriz_loop_returns [OF na _ _ calm_count(2) [OF assms, of m], of 0 "clients (heap_m st m)"]
  show ?thesis
  proof (cases "?n > u32 (nmaster (heap_m st m))")
    case True
    from udiv_diff_Some [OF True calm_count(2) [OF assms]] obtain th where
      "udiv (wh (heap_m st m) - (if nmaster (heap_m st m) \<noteq> 0
           then fp_mul E (wh (heap_m st m)) (mfact (heap_m st m)) else 0))
         (?n - nmaster (heap_m st m)) = Some th"
      by blast
    with True lp show ?thesis
      unfolding bstackhoriz_def Let_def calm_count(1) [OF assms] by simp
  next
    case False
    with lp show ?thesis
      unfolding bstackhoriz_def Let_def calm_count(1) [OF assms] by simp
  qed
qed

lemma arrangemon_returns:
  assumes "calm st"
  shows "\<exists>st'. arrangemon E m st = Some st'"
proof -
  define st1 where "st1 = st\<lparr>heap_m := (heap_m st)
      (m := (heap_m st m)\<lparr>ltsymbol := take 16 (symbol (layouts E (lt (heap_m st m) (sellt (heap_m st m)))))\<rparr>)\<rparr>"
  have "frame_arr st st1"
    unfolding st1_def by (rule upd_ltsymbol_frame)
  then have c: "calm st1"
    using assms by (simp add: frame_arr_calm)
  have e: "arrangemon E m st =
      (case cur_arrange E (heap_m st1 m) of
           None \<Rightarrow> Some st1
         | Some Tile \<Rightarrow> tile E m st1
         | Some Monocle \<Rightarrow> monocle E m st1
         | Some Bstack \<Rightarrow> bstack E m st1
         | Some Bstackhoriz \<Rightarrow> bstackhoriz E m st1)"
    unfolding arrangemon_def Let_def st1_def by (rule refl)
  show ?thesis
    unfolding e
    using tile_returns [OF c] monocle_returns [OF c] bstack_returns [OF c] bstackhoriz_returns [OF c]
    by (simp split: option.splits arrange_fn.splits)
qed

lemma arrange_returns:
  assumes "calm st"
  shows "\<exists>st'. arrange E (Some m) st = Some st' \<and> frame_arr st st'"
proof -
  let ?st2 = "showhide E (stack (heap_m (resetcursor st) m)) (resetcursor st)"
  have "frame_arr st ?st2"
    by (rule frame_arr_trans [OF resetcursor_frame showhide_frame])
  then have "calm ?st2"
    using assms by (simp add: frame_arr_calm)
  from arrangemon_returns [OF this] obtain st' where
    a: "arrange E (Some m) st = Some st'"
    by (auto simp add: arrange_def Let_def)
  with arrange_frame [OF a] show ?thesis by simp
qed

lemma togglebar_returns:
  assumes "calm st"
  shows "\<exists>st'. togglebar E st = Some st' \<and> calm st'"
proof -
  define st1 where "st1 = upd_mon (selmon st) (\<lambda>M. M\<lparr>showbar := \<not> showbar M,
      ptag := (ptag M)\<lparr>showbars := (showbars (ptag M))(curtag (ptag M) := \<not> showbar M)\<rparr>\<rparr>) st"
  define st2 where "st2 = updatebarpos (selmon st1) st1"
  have "animated st2 = animated st" "\<And>m. clients (heap_m st2 m) = clients (heap_m st m)"
    by (simp_all add: st2_def st1_def updatebarpos_def upd_mon_def Let_def)
  then have "calm st2"
    using assms by (simp add: calm_def)
  from arrange_returns [OF this] obtain st' where
    "arrange E (Some (selmon st1)) st2 = Some st'" "frame_arr st2 st'"
    by blast
  with \<open>calm st2\<close> show ?thesis
    by (simp add: togglebar_def Let_def st1_def st2_def frame_arr_calm)
qed

lemma focus_calm: "calm (focus co st) = calm st"
proof -
  have d: "animated (detachstack c s) = animated s"
      "clients (heap_m (detachstack c s) m) = clients (heap_m s m)" for c s m
    by (simp_all add: detachstack_def upd_mon_def Let_def)
  have o: "animated (focus_on c s) = animated s"
      "clients (heap_m (focus_on c s) m) = clients (heap_m s m)" for c s m
    by (simp_all add: focus_on_def Let_def attachstack_def upd_mon_def d seturgent_def
        upd_client_def)
  have f: "animated (focus_finish c s) = animated s"
      "clients (heap_m (focus_finish c s) m) = clients (heap_m s m)" for c s m
    by (simp_all add: focus_finish_def Let_def upd_mon_def split: option.splits)
  have r: "animated (resetcursor s) = animated s" "heap_m (resetcursor s) = heap_m s" for s
    by (simp_all add: resetcursor_def)
  have "animated (focus co st) = animated st"
    "clients (heap_m (focus co st) m) = clients (heap_m st m)" for m
    by (simp_all add: focus_def Let_def f o r split: option.splits)
  then show ?thesis
    by (simp add: calm_def)
qed

lemma lowbit_finds:
  "bit ui k \<Longrightarrow> i \<le> k \<Longrightarrow> k < 31 \<Longrightarrow> \<exists>j. lowbit ui i = Some j"
proof (induction ui i rule: lowbit.induct)
  case (1 ui i)
  show ?case
  proof (cases "bit ui i")
    case True
    with "1.prems" show ?thesis
      by (simp add: lowbit.simps [of ui i])
  next
    case False
    with "1.prems" have "i \<noteq> k" by auto
    with "1.prems" have "Suc i \<le> k" "\<not> 31 \<le> i" by simp_all
    from "1.IH" [OF this(2) False "1.prems"(1) this(1) "1.prems"(3)] False this(2)
    show ?thesis
      by (simp add: lowbit.simps [of ui i])
  qed
qed

lemma view_tags_returns:
  assumes "ntags E \<le> 31"
  shows "\<exists>M1. view_tags E ui M = Some M1"
proof (cases "ui AND TAGMASK E = 0 \<or> ui = NOT 0")
  case True
  then show ?thesis
    by (auto simp add: view_tags_def Let_def)
next
  case False
  then have "ui AND mask (ntags E) \<noteq> 0"
    by (simp add: TAGMASK_def mask_eq_exp_minus_1 push_bit_eq_mult)
  then obtain k where "bit (ui AND mask (ntags E)) k"
    by (auto simp add: bit_eq_iff)
  then have "bit ui k" "k < ntags E"
    by (simp_all add: bit_and_iff bit_mask_iff)
  with assms lowbit_finds [of ui k 0] obtain j where "lowbit ui 0 = Some j"
    by auto
  with False show ?thesis
    by (simp add: view_tags_def Let_def)
qed

lemma view_returns:
  assumes "calm st" and "ntags E \<le> 31"
  shows "\<exists>st'. view E ui st = Some st' \<and> calm st'"
proof -
  from view_tags_returns [OF assms(2)] obtain M1 where
    M1: "view_tags E ui (heap_m st (selmon st)) = Some M1"
    by blast
  define st1 where "st1 = st\<lparr>heap_m := (heap_m st)(selmon st := load_pertag M1)\<rparr>"
  have "clients (load_pertag M1) = clients (heap_m st (selmon st))"
    using view_tags_lists [OF M1] by (simp add: load_pertag_def Let_def)
  then have c1: "calm st1"
    using assms(1) by (simp add: calm_def st1_def)
  have "\<exists>st2. view_bar E st1 = Some st2 \<and> calm st2"
    using togglebar_returns [OF c1] c1 by (simp add: view_bar_def)
  then obtain st2 where st2: "view_bar E st1 = Some st2" "calm st2"
    by blast
  have cf: "calm (focus None st2)"
    using st2(2) by (simp add: focus_calm)
  from arrange_returns [OF this] obtain st' where
    a: "arrange E (Some (selmon (focus None st2))) (focus None st2) = Some st'"
    and f: "frame_arr (focus None st2) st'"
    by blast
  have "calm st'"
    using cf by (simp add: frame_arr_calm [OF f])
  with M1 st2(1) a show ?thesis
    by (simp add: view_def Let_def st1_def)
qed

text \<open>
  C1, as the code has it. A call of \<open>view\<close> with a mask that has a valid tag bit and
  is not the all-tags value \<open>~0\<close> (in particular a mask with several bits) sets the
  current tag index to the position of the lowest set bit of the mask plus one, whatever
  the index was before; the index it had before becomes \<open>prevtag\<close>. That holds of
  every call that returns, and the call returns whenever the animation is off.
\<close>

theorem view_curtag_lowbit:
  assumes "ui AND TAGMASK E \<noteq> 0" and "ui \<noteq> NOT 0"
  shows "(\<forall>st'. view E ui st = Some st' \<longrightarrow>
            (\<exists>i. bit ui i \<and> (\<forall>j<i. \<not> bit ui j) \<and>
               curtag (ptag (heap_m st' (selmon st))) = i + 1 \<and>
               prevtag (ptag (heap_m st' (selmon st))) = curtag (ptag (heap_m st (selmon st))))) \<and>
         (calm st \<and> ntags E \<le> 31 \<longrightarrow> (\<exists>st'. view E ui st = Some st'))"
proof (intro conjI allI impI)
  fix st'
  assume "view E ui st = Some st'"
  from view_curtag_step [OF this assms]
  show "\<exists>i. bit ui i \<and> (\<forall>j<i. \<not> bit ui j) \<and>
               curtag (ptag (heap_m st' (selmon st))) = i + 1 \<and>
               prevtag (ptag (heap_m st' (selmon st))) = curtag (ptag (heap_m st (selmon st)))" .
next
  assume "calm st \<and> ntags E \<le> 31"
  then show "\<exists>st'. view E ui st = Some st'"
    using view_returns [of st E ui] by blast
qed

lemma ex_calm: "calm ex_wm" "calm ex_sync" "ntags ex_env \<le> 31"
  by (simp_all add: calm_def ex_sync_def ex_wm_def ex_monitor_def ex_env_def)

text \<open>On the monitor of \<open>ex_wm\<close>, the view of tags 2 and 3 (mask 6) gives the index 2.\<close>

theorem view_curtag_lowbit_witness:
  "view ex_env 6 ex_wm \<noteq> None \<and>
   curtag (ptag (heap_m (the (view ex_env 6 ex_wm)) (selmon ex_wm))) = 2 \<and>
   prevtag (ptag (heap_m (the (view ex_env 6 ex_wm)) (selmon ex_wm))) = 1"
proof -
  have "6 AND TAGMASK ex_env \<noteq> 0" "(6::tagmask) \<noteq> NOT 0"
    by (simp_all add: TAGMASK_def ex_env_def)
  note t = view_curtag_lowbit [OF this, of ex_wm]
  from t ex_calm obtain st' where v: "view ex_env 6 ex_wm = Some st'"
    by blast
  with t obtain i where
    i: "bit (6::tagmask) i" "\<forall>j<i. \<not> bit (6::tagmask) j"
    and c: "curtag (ptag (heap_m st' (selmon ex_wm))) = i + 1"
      "prevtag (ptag (heap_m st' (selmon ex_wm))) = curtag (ptag (heap_m ex_wm (selmon ex_wm)))"
    by blast
  have "bit (6::tagmask) 1" "\<not> bit (6::tagmask) 0"
    by simp_all
  with i have "i = 1"
    by (metis less_one linorder_neqE_nat)
  with c v show ?thesis
    by (simp add: ex_defs)
qed

text \<open>
  C9, as the code has it. Let the live configuration of the selected monitor be the one
  its Pertag block holds for the current tag index (\<open>in_sync\<close>); the selected layout
  slot is 0 or 1 and the monitor owns the clients of its stack list. Then \<open>view\<close> with
  any mask followed by \<open>view\<close> with an empty mask selects the same monitor and restores
  its active tag set, its current tag index, the master count, the split factor, the
  selected layout slot, the layout pair and the bar visibility. That holds whenever the
  two calls return, and they return whenever the animation is off.
\<close>

theorem view_roundtrip:
  assumes "in_sync (heap_m st (selmon st))" and "sellt (heap_m st (selmon st)) < 2"
    and "stack_owned st"
    and "ui2 AND TAGMASK E = 0"
  shows "(\<forall>st1 st2. view E ui st = Some st1 \<and> view E ui2 st1 = Some st2 \<longrightarrow>
            selmon st1 = selmon st \<and>
            tagset (heap_m st2 (selmon st)) (seltags (heap_m st2 (selmon st))) =
              tagset (heap_m st (selmon st)) (seltags (heap_m st (selmon st))) \<and>
            curtag (ptag (heap_m st2 (selmon st))) = curtag (ptag (heap_m st (selmon st))) \<and>
            nmaster (heap_m st2 (selmon st)) = nmaster (heap_m st (selmon st)) \<and>
            mfact (heap_m st2 (selmon st)) = mfact (heap_m st (selmon st)) \<and>
            sellt (heap_m st2 (selmon st)) = sellt (heap_m st (selmon st)) \<and>
            lt (heap_m st2 (selmon st)) 0 = lt (heap_m st (selmon st)) 0 \<and>
            lt (heap_m st2 (selmon st)) 1 = lt (heap_m st (selmon st)) 1 \<and>
            showbar (heap_m st2 (selmon st)) = showbar (heap_m st (selmon st))) \<and>
         (calm st \<and> ntags E \<le> 31 \<longrightarrow>
            (\<exists>st1 st2. view E ui st = Some st1 \<and> view E ui2 st1 = Some st2))"
proof (rule conjI; intro allI impI)
  fix st1 st2
  assume "view E ui st = Some st1 \<and> view E ui2 st1 = Some st2"
  then have v: "view E ui st = Some st1" "view E ui2 st1 = Some st2"
    by simp_all
  from view_roundtrip_step [OF assms(1,2,3) v assms(4)]
  show "selmon st1 = selmon st \<and>
            tagset (heap_m st2 (selmon st)) (seltags (heap_m st2 (selmon st))) =
              tagset (heap_m st (selmon st)) (seltags (heap_m st (selmon st))) \<and>
            curtag (ptag (heap_m st2 (selmon st))) = curtag (ptag (heap_m st (selmon st))) \<and>
            nmaster (heap_m st2 (selmon st)) = nmaster (heap_m st (selmon st)) \<and>
            mfact (heap_m st2 (selmon st)) = mfact (heap_m st (selmon st)) \<and>
            sellt (heap_m st2 (selmon st)) = sellt (heap_m st (selmon st)) \<and>
            lt (heap_m st2 (selmon st)) 0 = lt (heap_m st (selmon st)) 0 \<and>
            lt (heap_m st2 (selmon st)) 1 = lt (heap_m st (selmon st)) 1 \<and>
            showbar (heap_m st2 (selmon st)) = showbar (heap_m st (selmon st))" .
next
  assume c: "calm st \<and> ntags E \<le> 31"
  with view_returns [of st E ui] obtain st1 where
    v1: "view E ui st = Some st1" and c1: "calm st1"
    by blast
  from view_returns [OF c1, of E ui2] c obtain st2 where "view E ui2 st1 = Some st2"
    by blast
  with v1 show "\<exists>st1 st2. view E ui st = Some st1 \<and> view E ui2 st1 = Some st2"
    by blast
qed

text \<open>
  On \<open>ex_sync\<close>: the view of tag 3 loads master count 3 and hides the bar, the
  back-toggle restores tag 1 with its configuration.
\<close>

theorem view_roundtrip_witness:
  "view ex_env 4 ex_sync \<noteq> None \<and>
   view ex_env 0 (the (view ex_env 4 ex_sync)) \<noteq> None \<and>
   curtag (ptag (heap_m (the (view ex_env 4 ex_sync)) 0)) = 3 \<and>
   nmaster (heap_m (the (view ex_env 4 ex_sync)) 0) = 3 \<and>
   showbar (heap_m (the (view ex_env 4 ex_sync)) 0) = False \<and>
   curtag (ptag (heap_m (the (view ex_env 0 (the (view ex_env 4 ex_sync)))) 0)) = 1 \<and>
   nmaster (heap_m (the (view ex_env 0 (the (view ex_env 4 ex_sync)))) 0) = 1 \<and>
   mfact (heap_m (the (view ex_env 0 (the (view ex_env 4 ex_sync)))) 0) = 1 / 3 \<and>
   sellt (heap_m (the (view ex_env 0 (the (view ex_env 4 ex_sync)))) 0) = 1 \<and>
   lt (heap_m (the (view ex_env 0 (the (view ex_env 4 ex_sync)))) 0) 0 = 1 \<and>
   lt (heap_m (the (view ex_env 0 (the (view ex_env 4 ex_sync)))) 0) 1 = 2 \<and>
   showbar (heap_m (the (view ex_env 0 (the (view ex_env 4 ex_sync)))) 0) = True \<and>
   tagset (heap_m (the (view ex_env 0 (the (view ex_env 4 ex_sync)))) 0)
     (seltags (heap_m (the (view ex_env 0 (the (view ex_env 4 ex_sync)))) 0)) = 1"
proof -
  let ?M = "heap_m ex_sync (selmon ex_sync)"
  obtain T1 where T1: "view_tags ex_env 4 ?M = Some T1"
    and t1: "curtag (ptag T1) = 3" "ptag T1 = (ptag ?M)\<lparr>prevtag := 1, curtag := 3\<rparr>"
      "showbar T1 = True"
    by (simp add: view_tags_def TAGMASK_def lowbit.simps Let_def ex_sync_fields ex_env_def)
  have sy: "in_sync ?M" "sellt ?M < 2" "stack_owned ex_sync"
    by (simp_all add: in_sync_def stack_owned_def Let_def ex_sync_fields)
  have bk: "0 AND TAGMASK ex_env = 0"
    by simp
  note t = view_roundtrip [OF sy bk, of 4]
  from t ex_calm obtain st1 st2 where
    v1: "view ex_env 4 ex_sync = Some st1" and v2: "view ex_env 0 st1 = Some st2"
    by blast
  from view_result [OF v1] T1
  have "view_eq (settle_bar (load_pertag T1)) (heap_m st1 (selmon ex_sync))"
    by simp
  then have "curtag (ptag (heap_m st1 (selmon ex_sync))) = 3"
    "nmaster (heap_m st1 (selmon ex_sync)) = 3"
    "showbar (heap_m st1 (selmon ex_sync)) = False"
    by (simp_all add: view_eq_def settle_bar_fields load_pertag_fields t1 ex_sync_fields)
  moreover from t v1 v2 have "selmon st1 = selmon ex_sync \<and>
            tagset (heap_m st2 (selmon ex_sync)) (seltags (heap_m st2 (selmon ex_sync))) =
              tagset ?M (seltags ?M) \<and>
            curtag (ptag (heap_m st2 (selmon ex_sync))) = curtag (ptag ?M) \<and>
            nmaster (heap_m st2 (selmon ex_sync)) = nmaster ?M \<and>
            mfact (heap_m st2 (selmon ex_sync)) = mfact ?M \<and>
            sellt (heap_m st2 (selmon ex_sync)) = sellt ?M \<and>
            lt (heap_m st2 (selmon ex_sync)) 0 = lt ?M 0 \<and>
            lt (heap_m st2 (selmon ex_sync)) 1 = lt ?M 1 \<and>
            showbar (heap_m st2 (selmon ex_sync)) = showbar ?M"
    by blast
  ultimately show ?thesis
    using v1 v2 by (simp add: ex_sync_fields)
qed

end
